theory Spec2Isabelle
  imports Complex_Main
begin

section \<open>JavaScript values\<close>

text \<open>
  Numbers of the payloads are modelled as exact reals (a field that may be \<open>null\<close> is an
  option); array indices and counters are integers or naturals. The helpers below
  spell out JavaScript truthiness, \<open>x || undefined\<close> and \<open>Math.round\<close>.
\<close>

fun truthy :: "real option \<Rightarrow> bool" where
  "truthy None = False"
| "truthy (Some x) = (x \<noteq> 0)"

fun truthyStr :: "string option \<Rightarrow> bool" where
  "truthyStr None = False"
| "truthyStr (Some x) = (x \<noteq> [])"

definition orUndefined :: "real option \<Rightarrow> real option" where
  "orUndefined x = (if truthy x then x else None)"

definition orUndefinedStr :: "string option \<Rightarrow> string option" where
  "orUndefinedStr x = (if truthyStr x then x else None)"

definition mathRound :: "real \<Rightarrow> int" where
  "mathRound x = \<lfloor>x + 1 / 2\<rfloor>"

definition round1 :: "real \<Rightarrow> real" where
  "round1 x = of_int (mathRound (x * 10)) / 10"

section \<open>Payloads of the source API\<close>

record HevySet =
  set_index :: int
  set_type :: string
  weight_kg :: "real option"
  reps :: "real option"
  distance_meters :: "real option"
  duration_seconds :: "real option"
  rpe :: "real option"
  custom_metric :: "real option"

record HevyExercise =
  ex_index :: int
  ex_title :: string
  ex_notes :: "string option"
  exercise_template_id :: string
  superset_id :: "real option"
  ex_sets :: "HevySet list"

record HevyWorkout =
  hw_id :: string
  hw_title :: string
  hw_description :: "string option"
  start_time :: string
  end_time :: "string option"
  hw_exercises :: "HevyExercise list"

section \<open>Aggregate statistics\<close>

text \<open>
  The body of the inner loop over sets, shared by \<open>calculateWorkoutStats\<close> and by the
  statistics block of \<open>upsertWorkout\<close>: the accumulator is
  \<open>(totalVolume, totalSets, totalReps)\<close>.
\<close>

definition addSet :: "real \<times> nat \<times> real \<Rightarrow> HevySet \<Rightarrow> real \<times> nat \<times> real" where
  "addSet acc st =
     (case acc of (totalVolume, totalSets, totalReps) \<Rightarrow>
        (if truthy (reps st) then
           (if truthy (weight_kg st)
            then (totalVolume + the (weight_kg st) * the (reps st), totalSets + 1,
                  totalReps + the (reps st))
            else (totalVolume, totalSets + 1, totalReps + the (reps st)))
         else (totalVolume, totalSets + 1, totalReps)))"

definition addExercise :: "real \<times> nat \<times> real \<Rightarrow> HevyExercise \<Rightarrow> real \<times> nat \<times> real" where
  "addExercise acc ex = foldl addSet acc (ex_sets ex)"

definition sumStats :: "HevyExercise list \<Rightarrow> real \<times> nat \<times> real" where
  "sumStats exs = foldl addExercise (0, 0, 0) exs"

record WorkoutStats =
  stats_totalVolume :: real
  stats_totalSets :: nat
  stats_totalReps :: real

definition calculateWorkoutStats :: "HevyExercise list \<Rightarrow> WorkoutStats" where
  "calculateWorkoutStats exs =
     (case sumStats exs of (totalVolume, totalSets, totalReps) \<Rightarrow>
        \<lparr>stats_totalVolume = round1 totalVolume,
         stats_totalSets = totalSets,
         stats_totalReps = totalReps\<rparr>)"

section \<open>The local store\<close>

text \<open>
  Each table is the list of its documents in creation order. Document identifiers are
  natural numbers handed out by one counter, \<open>nextId\<close>.
\<close>

record workout_row =
  w_id :: nat
  hevyId :: string
  title :: string
  description :: "string option"
  startTime :: string
  endTime :: "string option"
  durationMinutes :: "int option"
  totalVolume :: real
  totalSets :: nat
  totalReps :: real
  notionPageId :: "string option"
  syncedToNotion :: bool
  isDeleted :: bool

record exercise_row =
  e_id :: nat
  workoutId :: nat
  hevyExerciseIndex :: int
  exerciseTemplateId :: string
  e_title :: string
  e_notes :: "string option"
  supersetId :: "real option"
  e_notionPageId :: "string option"
  e_syncedToNotion :: bool

record set_row =
  s_id :: nat
  exerciseId :: nat
  s_workoutId :: nat
  setIndex :: int
  setType :: string
  weightKg :: "real option"
  s_reps :: "real option"
  distanceMeters :: "real option"
  durationSeconds :: "real option"
  s_rpe :: "real option"
  customMetric :: "real option"
  s_notionPageId :: "string option"
  s_syncedToNotion :: bool

record syncState_row =
  lastSyncedAt :: "string option"
  lastEventTimestamp :: "string option"
  lastError :: "string option"
  syncInProgress :: bool

record folder_row =
  f_id :: nat
  f_hevyId :: int
  f_title :: string
  f_index :: int
  f_weekNumber :: "int option"
  f_sortOrder :: int
  f_notionPageId :: "string option"
  f_syncedToNotion :: bool
  f_updatedAt :: string

record routine_row =
  r_id :: nat
  r_hevyId :: string
  folderId :: "nat option"
  hevyFolderId :: "int option"
  r_title :: string
  dayNumber :: "int option"
  weekNumber :: "int option"
  sortOrder :: int
  dayType :: "string option"
  r_notionPageId :: "string option"
  r_syncedToNotion :: bool
  updatedAt :: string

record routineExercise_row =
  re_id :: nat
  routineId :: nat
  re_index :: int
  re_exerciseTemplateId :: string
  re_title :: string
  re_notes :: "string option"
  re_supersetId :: "real option"
  restSeconds :: "real option"
  targetSets :: nat
  targetReps :: "real option"
  targetWeightKg :: "real option"
  re_weekNumber :: "int option"
  re_dayNumber :: "int option"
  exerciseOrder :: int
  globalSortOrder :: int
  exerciseRole :: string
  muscleGroup :: "string option"
  re_notionPageId :: "string option"
  re_syncedToNotion :: bool

record routineSet_row =
  rs_id :: nat
  routineExerciseId :: nat
  rs_routineId :: nat
  rs_index :: int
  rs_setType :: string
  rs_targetReps :: "real option"
  rs_targetWeightKg :: "real option"
  targetDistanceMeters :: "real option"
  targetDurationSeconds :: "real option"
  rs_notionPageId :: "string option"
  rs_syncedToNotion :: bool

record store =
  nextId :: nat
  syncState :: "syncState_row list"
  workouts :: "workout_row list"
  exercises :: "exercise_row list"
  sets :: "set_row list"
  routineFolders :: "folder_row list"
  routines :: "routine_row list"
  routineExercises :: "routineExercise_row list"
  routineSets :: "routineSet_row list"

definition emptyStore :: store where
  "emptyStore = \<lparr>nextId = 0, syncState = [], workouts = [], exercises = [], sets = [],
     routineFolders = [], routines = [], routineExercises = [], routineSets = []\<rparr>"

text \<open>\<open>query(...).first()\<close>: the oldest matching document, if any.\<close>

definition first :: "('a \<Rightarrow> bool) \<Rightarrow> 'a list \<Rightarrow> 'a option" where
  "first p rows = (case filter p rows of [] \<Rightarrow> None | r # _ \<Rightarrow> Some r)"

section \<open>Workout mutations\<close>

definition insertSet :: "nat \<Rightarrow> nat \<Rightarrow> store \<Rightarrow> HevySet \<Rightarrow> store" where
  "insertSet eid wid s st =
     s\<lparr>nextId := nextId s + 1,
       sets := sets s @
         [\<lparr>s_id = nextId s, exerciseId = eid, s_workoutId = wid,
           setIndex = set_index st, setType = set_type st,
           weightKg = orUndefined (weight_kg st), s_reps = orUndefined (reps st),
           distanceMeters = orUndefined (distance_meters st),
           durationSeconds = orUndefined (duration_seconds st),
           s_rpe = orUndefined (rpe st), customMetric = orUndefined (custom_metric st),
           s_notionPageId = None, s_syncedToNotion = False\<rparr>]\<rparr>"

definition insertExercise :: "nat \<Rightarrow> store \<Rightarrow> HevyExercise \<Rightarrow> store" where
  "insertExercise wid s ex =
     foldl (insertSet (nextId s) wid)
       (s\<lparr>nextId := nextId s + 1,
          exercises := exercises s @
            [\<lparr>e_id = nextId s, workoutId = wid, hevyExerciseIndex = ex_index ex,
              exerciseTemplateId = exercise_template_id ex, e_title = ex_title ex,
              e_notes = orUndefinedStr (ex_notes ex),
              supersetId = orUndefined (superset_id ex),
              e_notionPageId = None, e_syncedToNotion = False\<rparr>]\<rparr>)
       (ex_sets ex)"

definition deleteSet :: "store \<Rightarrow> set_row \<Rightarrow> store" where
  "deleteSet s r = s\<lparr>sets := filter (\<lambda>x. s_id x \<noteq> s_id r) (sets s)\<rparr>"

definition deleteExercise :: "store \<Rightarrow> exercise_row \<Rightarrow> store" where
  "deleteExercise s ex =
     (let existingSets = filter (\<lambda>x. exerciseId x = e_id ex) (sets s);
          s1 = foldl deleteSet s existingSets
      in s1\<lparr>exercises := filter (\<lambda>x. e_id x \<noteq> e_id ex) (exercises s1)\<rparr>)"

text \<open>
  \<open>getTime\<close> stands for \<open>new Date(str).getTime()\<close>, the milliseconds of a
  timestamp string.
\<close>

definition workoutDuration :: "(string \<Rightarrow> real) \<Rightarrow> HevyWorkout \<Rightarrow> int option" where
  "workoutDuration getTime workout =
     (if start_time workout \<noteq> [] \<and> truthyStr (end_time workout)
      then Some (mathRound ((getTime (the (end_time workout)) - getTime (start_time workout)) / 60000))
      else None)"

definition patchWorkout :: "(string \<Rightarrow> real) \<Rightarrow> HevyWorkout \<Rightarrow> workout_row \<Rightarrow> workout_row" where
  "patchWorkout getTime workout r =
     (case sumStats (hw_exercises workout) of (tv, ts, tr) \<Rightarrow>
        r\<lparr>title := hw_title workout,
          description := orUndefinedStr (hw_description workout),
          startTime := start_time workout,
          endTime := orUndefinedStr (end_time workout),
          durationMinutes := workoutDuration getTime workout,
          totalVolume := round1 tv,
          totalSets := ts,
          totalReps := tr,
          syncedToNotion := False,
          isDeleted := False\<rparr>)"

definition newWorkout :: "(string \<Rightarrow> real) \<Rightarrow> HevyWorkout \<Rightarrow> nat \<Rightarrow> workout_row" where
  "newWorkout getTime workout i =
     (case sumStats (hw_exercises workout) of (tv, ts, tr) \<Rightarrow>
        \<lparr>w_id = i, hevyId = hw_id workout, title = hw_title workout,
         description = orUndefinedStr (hw_description workout),
         startTime = start_time workout,
         endTime = orUndefinedStr (end_time workout),
         durationMinutes = workoutDuration getTime workout,
         totalVolume = round1 tv, totalSets = ts, totalReps = tr,
         notionPageId = None, syncedToNotion = False, isDeleted = False\<rparr>)"

definition upsertWorkout :: "(string \<Rightarrow> real) \<Rightarrow> HevyWorkout \<Rightarrow> store \<Rightarrow> nat \<times> store" where
  "upsertWorkout getTime workout s =
     (case first (\<lambda>r. hevyId r = hw_id workout) (workouts s) of
        Some existing \<Rightarrow>
          (let s1 = s\<lparr>workouts :=
                       map (\<lambda>r. if w_id r = w_id existing
                                then patchWorkout getTime workout r else r) (workouts s)\<rparr>;
               existingExercises = filter (\<lambda>x. workoutId x = w_id existing) (exercises s1);
               s2 = foldl deleteExercise s1 existingExercises
           in (w_id existing, foldl (insertExercise (w_id existing)) s2 (hw_exercises workout)))
      | None \<Rightarrow>
          (let s1 = s\<lparr>nextId := nextId s + 1,
                       workouts := workouts s @ [newWorkout getTime workout (nextId s)]\<rparr>
           in (nextId s, foldl (insertExercise (nextId s)) s1 (hw_exercises workout))))"

definition markWorkoutDeleted :: "string \<Rightarrow> store \<Rightarrow> store" where
  "markWorkoutDeleted h s =
     (case first (\<lambda>r. hevyId r = h) (workouts s) of
        Some existing \<Rightarrow>
          s\<lparr>workouts :=
              map (\<lambda>r. if w_id r = w_id existing
                       then r\<lparr>isDeleted := True, syncedToNotion := False\<rparr> else r)
                (workouts s)\<rparr>
      | None \<Rightarrow> s)"

definition markWorkoutSynced :: "nat \<Rightarrow> string \<Rightarrow> store \<Rightarrow> store" where
  "markWorkoutSynced wid pageId s =
     s\<lparr>workouts :=
         map (\<lambda>r. if w_id r = wid
                  then r\<lparr>syncedToNotion := True, notionPageId := Some pageId\<rparr> else r)
           (workouts s)\<rparr>"

definition getUnsyncedWorkouts :: "store \<Rightarrow> workout_row list" where
  "getUnsyncedWorkouts s = filter (\<lambda>r. \<not> syncedToNotion r) (workouts s)"

definition getWorkoutExercises :: "nat \<Rightarrow> store \<Rightarrow> exercise_row list" where
  "getWorkoutExercises wid s = filter (\<lambda>x. workoutId x = wid) (exercises s)"

definition getExerciseSets :: "nat \<Rightarrow> store \<Rightarrow> set_row list" where
  "getExerciseSets eid s = filter (\<lambda>x. exerciseId x = eid) (sets s)"

section \<open>Routines: derived fields\<close>

text \<open>
  Strings are byte strings; \<open>toLowerCase\<close> and the case-insensitive matching of the
  regular expressions act on the ASCII letters.
\<close>

definition lowerChar :: "char \<Rightarrow> char" where
  "lowerChar c =
     (let n = (of_char c :: nat) in if 65 \<le> n \<and> n \<le> 90 then char_of (n + 32) else c)"

definition toLowerCase :: "string \<Rightarrow> string" where
  "toLowerCase s = map lowerChar s"

fun includesStr :: "string \<Rightarrow> string \<Rightarrow> bool" where
  "includesStr [] sub = (sub = [])"
| "includesStr (c # cs) sub = (take (length sub) (c # cs) = sub \<or> includesStr cs sub)"

definition isSpace :: "char \<Rightarrow> bool" where
  "isSpace c = ((of_char c :: nat) \<in> {9, 10, 11, 12, 13, 32, 160})"

definition isDigit :: "char \<Rightarrow> bool" where
  "isDigit c = (48 \<le> (of_char c :: nat) \<and> (of_char c :: nat) \<le> 57)"

definition parseInt :: "string \<Rightarrow> int" where
  "parseInt ds = foldl (\<lambda>a c. a * 10 + (int (of_char c) - 48)) 0 ds"

text \<open>
  The regular expressions \<open>/(?:week|w)\\s*(\\d+)/i\<close> and \<open>/(?:day|d|#)\\s*(\\d+)/i\<close>:
  at the leftmost position where one of the keywords (tried in order), optional white
  space and at least one digit follow each other, the digits are read as a decimal
  number.
\<close>

definition matchNumber :: "string \<Rightarrow> int option" where
  "matchNumber s =
     (let ds = takeWhile isDigit (dropWhile isSpace s)
      in if ds = [] then None else Some (parseInt ds))"

fun matchAt :: "string list \<Rightarrow> string \<Rightarrow> int option" where
  "matchAt [] s = None"
| "matchAt (kw # kws) s =
     (if toLowerCase (take (length kw) s) = kw
      then (case matchNumber (drop (length kw) s) of
              Some n \<Rightarrow> Some n
            | None \<Rightarrow> matchAt kws s)
      else matchAt kws s)"

fun searchNumber :: "string list \<Rightarrow> string \<Rightarrow> int option" where
  "searchNumber kws [] = None"
| "searchNumber kws (c # cs) =
     (case matchAt kws (c # cs) of
        Some n \<Rightarrow> Some n
      | None \<Rightarrow> searchNumber kws cs)"

definition parseWeekNumber :: "string \<Rightarrow> int option" where
  "parseWeekNumber t = searchNumber [''week'', ''w''] t"

definition parseDayNumber :: "string \<Rightarrow> int option" where
  "parseDayNumber t = searchNumber [''day'', ''d'', ''#''] t"

definition detectDayType :: "string \<Rightarrow> string option" where
  "detectDayType t =
     (let titleLower = toLowerCase t in
      if includesStr titleLower ''squat'' then Some ''Squat''
      else if includesStr titleLower ''bench'' then Some ''Bench''
      else if includesStr titleLower ''deadlift'' then Some ''Deadlift''
      else if includesStr titleLower ''press'' \<and> \<not> includesStr titleLower ''bench'' then Some ''Press''
      else if includesStr titleLower ''upper'' then Some ''Upper''
      else if includesStr titleLower ''lower'' then Some ''Lower''
      else if includesStr titleLower ''pull'' then Some ''Pull''
      else if includesStr titleLower ''push'' then Some ''Push''
      else None)"

definition detectExerciseRole :: "int \<Rightarrow> string \<Rightarrow> string" where
  "detectExerciseRole i t =
     (let titleLower = toLowerCase t in
      if i = 0 then ''Main Lift''
      else if includesStr titleLower ''curl'' \<or> includesStr titleLower ''extension''
            \<or> includesStr titleLower ''raise'' \<or> includesStr titleLower ''fly''
            \<or> includesStr titleLower ''kickback'' \<or> includesStr titleLower ''calf''
            \<or> includesStr titleLower ''ab '' \<or> includesStr titleLower ''crunch''
            \<or> includesStr titleLower ''plank''
      then ''Accessory''
      else if i = 1 \<or> i = 2 then ''Variation''
      else ''Accessory'')"

definition detectMuscleGroup :: "string \<Rightarrow> string option" where
  "detectMuscleGroup t =
     (let titleLower = toLowerCase t in
      if includesStr titleLower ''bench'' \<or> includesStr titleLower ''chest''
         \<or> includesStr titleLower ''fly'' \<or> includesStr titleLower ''pec''
      then Some ''Chest''
      else if includesStr titleLower ''row'' \<or> includesStr titleLower ''pull''
         \<or> includesStr titleLower ''lat'' \<or> includesStr titleLower ''back''
         \<or> includesStr titleLower ''deadlift''
      then Some ''Back''
      else if includesStr titleLower ''shoulder'' \<or> includesStr titleLower ''press''
         \<or> includesStr titleLower ''raise'' \<or> includesStr titleLower ''delt''
      then Some ''Shoulders''
      else if includesStr titleLower ''squat'' \<or> includesStr titleLower ''leg''
         \<or> includesStr titleLower ''quad'' \<or> includesStr titleLower ''ham''
         \<or> includesStr titleLower ''glute'' \<or> includesStr titleLower ''lunge''
         \<or> includesStr titleLower ''calf''
      then Some ''Legs''
      else if includesStr titleLower ''curl'' \<or> includesStr titleLower ''bicep''
      then Some ''Biceps''
      else if includesStr titleLower ''tricep'' \<or> includesStr titleLower ''pushdown''
         \<or> includesStr titleLower ''extension''
      then Some ''Triceps''
      else if includesStr titleLower ''ab'' \<or> includesStr titleLower ''core''
         \<or> includesStr titleLower ''crunch'' \<or> includesStr titleLower ''plank''
      then Some ''Core''
      else None)"

text \<open>\<open>n || 0\<close> on an optional number.\<close>

fun orZero :: "int option \<Rightarrow> int" where
  "orZero None = 0"
| "orZero (Some n) = n"

section \<open>Routine payloads and mutations\<close>

record HevyRoutineFolder =
  hf_id :: int
  hf_index :: int
  hf_title :: string
  hf_updated_at :: string

record HevyRoutineSet =
  hrs_index :: int
  hrs_type :: string
  hrs_weight_kg :: "real option"
  hrs_reps :: "real option"
  hrs_distance_meters :: "real option"
  hrs_duration_seconds :: "real option"

record HevyRoutineExercise =
  hre_index :: int
  hre_title :: string
  hre_notes :: "string option"
  hre_exercise_template_id :: string
  hre_superset_id :: "real option"
  rest_seconds :: "real option"
  hre_sets :: "HevyRoutineSet list"

record HevyRoutine =
  hr_id :: string
  hr_title :: string
  folder_id :: "int option"
  hr_updated_at :: string
  hr_exercises :: "HevyRoutineExercise list"

definition upsertRoutineFolder :: "HevyRoutineFolder \<Rightarrow> store \<Rightarrow> nat \<times> store" where
  "upsertRoutineFolder folder s =
     (let wk = parseWeekNumber (hf_title folder);
          so = orZero wk * 100 + hf_index folder
      in case first (\<lambda>r. f_hevyId r = hf_id folder) (routineFolders s) of
           Some existing \<Rightarrow>
             (f_id existing,
              s\<lparr>routineFolders :=
                  map (\<lambda>r. if f_id r = f_id existing
                           then r\<lparr>f_hevyId := hf_id folder, f_title := hf_title folder,
                                  f_index := hf_index folder, f_weekNumber := wk,
                                  f_sortOrder := so, f_updatedAt := hf_updated_at folder,
                                  f_syncedToNotion := False\<rparr>
                           else r) (routineFolders s)\<rparr>)
         | None \<Rightarrow>
             (nextId s,
              s\<lparr>nextId := nextId s + 1,
                routineFolders := routineFolders s @
                  [\<lparr>f_id = nextId s, f_hevyId = hf_id folder, f_title = hf_title folder,
                    f_index = hf_index folder, f_weekNumber = wk, f_sortOrder = so,
                    f_notionPageId = None, f_syncedToNotion = False,
                    f_updatedAt = hf_updated_at folder\<rparr>]\<rparr>))"

definition insertRoutineSet :: "nat \<Rightarrow> nat \<Rightarrow> store \<Rightarrow> HevyRoutineSet \<Rightarrow> store" where
  "insertRoutineSet eid rid s st =
     s\<lparr>nextId := nextId s + 1,
       routineSets := routineSets s @
         [\<lparr>rs_id = nextId s, routineExerciseId = eid, rs_routineId = rid,
           rs_index = hrs_index st, rs_setType = hrs_type st,
           rs_targetReps = orUndefined (hrs_reps st),
           rs_targetWeightKg = orUndefined (hrs_weight_kg st),
           targetDistanceMeters = orUndefined (hrs_distance_meters st),
           targetDurationSeconds = orUndefined (hrs_duration_seconds st),
           rs_notionPageId = None, rs_syncedToNotion = False\<rparr>]\<rparr>"

definition firstSetReps :: "HevyRoutineSet list \<Rightarrow> real option" where
  "firstSetReps sts = (case sts of [] \<Rightarrow> None | st # _ \<Rightarrow> orUndefined (hrs_reps st))"

definition insertRoutineExercise ::
    "nat \<Rightarrow> int option \<Rightarrow> int option \<Rightarrow> store \<Rightarrow> HevyRoutineExercise \<Rightarrow> store" where
  "insertRoutineExercise rid folderWeekNumber dn s ex =
     foldl (insertRoutineSet (nextId s) rid)
       (s\<lparr>nextId := nextId s + 1,
          routineExercises := routineExercises s @
            [\<lparr>re_id = nextId s, routineId = rid, re_index = hre_index ex,
              re_exerciseTemplateId = hre_exercise_template_id ex,
              re_title = hre_title ex,
              re_notes = orUndefinedStr (hre_notes ex),
              re_supersetId = orUndefined (hre_superset_id ex),
              restSeconds = orUndefined (rest_seconds ex),
              targetSets = length (hre_sets ex),
              targetReps = firstSetReps (hre_sets ex),
              targetWeightKg = None,
              re_weekNumber = folderWeekNumber, re_dayNumber = dn,
              exerciseOrder = hre_index ex,
              globalSortOrder = orZero folderWeekNumber * 10000 + orZero dn * 100 + hre_index ex,
              exerciseRole = detectExerciseRole (hre_index ex) (hre_title ex),
              muscleGroup = detectMuscleGroup (hre_title ex),
              re_notionPageId = None, re_syncedToNotion = False\<rparr>]\<rparr>)
       (hre_sets ex)"

definition deleteRoutineSet :: "store \<Rightarrow> routineSet_row \<Rightarrow> store" where
  "deleteRoutineSet s r = s\<lparr>routineSets := filter (\<lambda>x. rs_id x \<noteq> rs_id r) (routineSets s)\<rparr>"

definition deleteRoutineExercise :: "store \<Rightarrow> routineExercise_row \<Rightarrow> store" where
  "deleteRoutineExercise s ex =
     (let existingSets = filter (\<lambda>x. routineExerciseId x = re_id ex) (routineSets s);
          s1 = foldl deleteRoutineSet s existingSets
      in s1\<lparr>routineExercises := filter (\<lambda>x. re_id x \<noteq> re_id ex) (routineExercises s1)\<rparr>)"

text \<open>The folder of a routine: its document id and its week number, when it is found.\<close>

definition lookupFolder :: "HevyRoutine \<Rightarrow> store \<Rightarrow> nat option \<times> int option" where
  "lookupFolder routine s =
     (case folder_id routine of
        None \<Rightarrow> (None, None)
      | Some fid \<Rightarrow>
          (if fid = 0 then (None, None)
           else (case first (\<lambda>r. f_hevyId r = fid) (routineFolders s) of
                   None \<Rightarrow> (None, None)
                 | Some folder \<Rightarrow> (Some (f_id folder), f_weekNumber folder))))"

definition patchRoutine :: "HevyRoutine \<Rightarrow> store \<Rightarrow> routine_row \<Rightarrow> routine_row" where
  "patchRoutine routine s r =
     (case lookupFolder routine s of (fid, folderWeekNumber) \<Rightarrow>
        r\<lparr>r_hevyId := hr_id routine,
          folderId := fid,
          hevyFolderId := (if folder_id routine = Some 0 then None else folder_id routine),
          r_title := hr_title routine,
          dayNumber := parseDayNumber (hr_title routine),
          weekNumber := folderWeekNumber,
          sortOrder := orZero folderWeekNumber * 100 + orZero (parseDayNumber (hr_title routine)),
          dayType := detectDayType (hr_title routine),
          updatedAt := hr_updated_at routine,
          r_syncedToNotion := False\<rparr>)"

definition newRoutine :: "HevyRoutine \<Rightarrow> store \<Rightarrow> nat \<Rightarrow> routine_row" where
  "newRoutine routine s i =
     (case lookupFolder routine s of (fid, folderWeekNumber) \<Rightarrow>
        \<lparr>r_id = i, r_hevyId = hr_id routine,
         folderId = fid,
         hevyFolderId = (if folder_id routine = Some 0 then None else folder_id routine),
         r_title = hr_title routine,
         dayNumber = parseDayNumber (hr_title routine),
         weekNumber = folderWeekNumber,
         sortOrder = orZero folderWeekNumber * 100 + orZero (parseDayNumber (hr_title routine)),
         dayType = detectDayType (hr_title routine),
         r_notionPageId = None, r_syncedToNotion = False,
         updatedAt = hr_updated_at routine\<rparr>)"

definition upsertRoutine :: "HevyRoutine \<Rightarrow> store \<Rightarrow> nat \<times> store" where
  "upsertRoutine routine s =
     (let folderWeekNumber = snd (lookupFolder routine s);
          dn = parseDayNumber (hr_title routine)
      in case first (\<lambda>r. r_hevyId r = hr_id routine) (routines s) of
           Some existing \<Rightarrow>
             (let s1 = s\<lparr>routines :=
                          map (\<lambda>r. if r_id r = r_id existing
                                   then patchRoutine routine s r else r) (routines s)\<rparr>;
                  existingExercises =
                    filter (\<lambda>x. routineId x = r_id existing) (routineExercises s1);
                  s2 = foldl deleteRoutineExercise s1 existingExercises
              in (r_id existing,
                  foldl (insertRoutineExercise (r_id existing) folderWeekNumber dn) s2
                    (hr_exercises routine)))
         | None \<Rightarrow>
             (let s1 = s\<lparr>nextId := nextId s + 1,
                          routines := routines s @ [newRoutine routine s (nextId s)]\<rparr>
              in (nextId s,
                  foldl (insertRoutineExercise (nextId s) folderWeekNumber dn) s1
                    (hr_exercises routine))))"



section \<open>Remaining mutations of the modelled tables\<close>

record SyncStateArgs =
  arg_lastSyncedAt :: "string option"
  arg_lastEventTimestamp :: "string option"
  arg_lastError :: "string option"
  arg_syncInProgress :: "bool option"

text \<open>
  \<open>updateSyncState\<close> patches the first sync-state document: the two timestamps only
  when the argument is truthy, the error and the flag whenever they are given. Without a
  document it inserts one from the arguments.
\<close>

definition patchSyncState :: "SyncStateArgs \<Rightarrow> syncState_row \<Rightarrow> syncState_row" where
  "patchSyncState args r =
     r\<lparr>lastSyncedAt :=
         (if truthyStr (arg_lastSyncedAt args) then arg_lastSyncedAt args else lastSyncedAt r),
       lastEventTimestamp :=
         (if truthyStr (arg_lastEventTimestamp args) then arg_lastEventTimestamp args
          else lastEventTimestamp r),
       lastError :=
         (if arg_lastError args \<noteq> None then arg_lastError args else lastError r),
       syncInProgress :=
         (case arg_syncInProgress args of Some b \<Rightarrow> b | None \<Rightarrow> syncInProgress r)\<rparr>"

definition updateSyncState :: "SyncStateArgs \<Rightarrow> store \<Rightarrow> store" where
  "updateSyncState args s =
     (case syncState s of
        existing # others \<Rightarrow> s\<lparr>syncState := patchSyncState args existing # others\<rparr>
      | [] \<Rightarrow>
          s\<lparr>syncState :=
              [\<lparr>lastSyncedAt = arg_lastSyncedAt args,
                lastEventTimestamp = arg_lastEventTimestamp args,
                lastError = arg_lastError args,
                syncInProgress = (case arg_syncInProgress args of Some b \<Rightarrow> b | None \<Rightarrow> False)\<rparr>]\<rparr>)"

definition getSyncState :: "store \<Rightarrow> syncState_row option" where
  "getSyncState s = (case syncState s of [] \<Rightarrow> None | r # _ \<Rightarrow> Some r)"

definition markRoutineFolderSynced :: "nat \<Rightarrow> string \<Rightarrow> store \<Rightarrow> store" where
  "markRoutineFolderSynced fid pageId s =
     s\<lparr>routineFolders :=
         map (\<lambda>r. if f_id r = fid
                  then r\<lparr>f_syncedToNotion := True, f_notionPageId := Some pageId\<rparr> else r)
           (routineFolders s)\<rparr>"

definition markRoutineSynced :: "nat \<Rightarrow> string \<Rightarrow> store \<Rightarrow> store" where
  "markRoutineSynced rid pageId s =
     s\<lparr>routines :=
         map (\<lambda>r. if r_id r = rid
                  then r\<lparr>r_syncedToNotion := True, r_notionPageId := Some pageId\<rparr> else r)
           (routines s)\<rparr>"

definition markRoutineExerciseSynced :: "nat \<Rightarrow> string \<Rightarrow> store \<Rightarrow> store" where
  "markRoutineExerciseSynced eid pageId s =
     s\<lparr>routineExercises :=
         map (\<lambda>r. if re_id r = eid
                  then r\<lparr>re_syncedToNotion := True, re_notionPageId := Some pageId\<rparr> else r)
           (routineExercises s)\<rparr>"

definition getUnsyncedRoutineFolders :: "store \<Rightarrow> folder_row list" where
  "getUnsyncedRoutineFolders s = filter (\<lambda>r. \<not> f_syncedToNotion r) (routineFolders s)"

definition getRoutinesByFolder :: "nat \<Rightarrow> store \<Rightarrow> routine_row list" where
  "getRoutinesByFolder fid s = filter (\<lambda>r. folderId r = Some fid) (routines s)"

text \<open>
  The mutations that write to the modelled tables, as one type, and their effect on the
  store. (The mutations on exercise templates and on exercise progress write to two
  tables that are not modelled and to nothing else.)
\<close>

datatype mutation =
    UpdateSyncState SyncStateArgs
  | UpsertWorkout HevyWorkout
  | MarkWorkoutDeleted string
  | MarkWorkoutSynced nat string
  | UpsertRoutineFolder HevyRoutineFolder
  | UpsertRoutine HevyRoutine
  | MarkRoutineFolderSynced nat string
  | MarkRoutineSynced nat string
  | MarkRoutineExerciseSynced nat string

fun runMutation :: "(string \<Rightarrow> real) \<Rightarrow> mutation \<Rightarrow> store \<Rightarrow> store" where
  "runMutation getTime (UpdateSyncState args) s = updateSyncState args s"
| "runMutation getTime (UpsertWorkout workout) s = snd (upsertWorkout getTime workout s)"
| "runMutation getTime (MarkWorkoutDeleted h) s = markWorkoutDeleted h s"
| "runMutation getTime (MarkWorkoutSynced wid pageId) s = markWorkoutSynced wid pageId s"
| "runMutation getTime (UpsertRoutineFolder folder) s = snd (upsertRoutineFolder folder s)"
| "runMutation getTime (UpsertRoutine routine) s = snd (upsertRoutine routine s)"
| "runMutation getTime (MarkRoutineFolderSynced fid pageId) s = markRoutineFolderSynced fid pageId s"
| "runMutation getTime (MarkRoutineSynced rid pageId) s = markRoutineSynced rid pageId s"
| "runMutation getTime (MarkRoutineExerciseSynced eid pageId) s = markRoutineExerciseSynced eid pageId s"

section \<open>Incremental sync from the source API\<close>

record HevyEvent =
  ev_type :: string
  ev_workout :: "HevyWorkout option"
  ev_id :: "string option"

text \<open>
  What the action reads from outside: the API key of the environment, the events
  endpoint (for a \<open>since\<close> timestamp and a page number it fails with a message or
  returns the page count and the events of the page), the clock (the successive values
  of \<open>new Date().toISOString()\<close>) and the parsing of timestamps.
\<close>

record hevy_env =
  HEVY_API_KEY :: "string option"
  fetchHevyEvents :: "string \<Rightarrow> nat \<Rightarrow> string + nat \<times> HevyEvent list"
  clock :: "nat \<Rightarrow> string"
  dateGetTime :: "string \<Rightarrow> real"

record SyncResult =
  eventsProcessed :: nat
  updated :: nat
  deleted :: nat

definition sinceTimestamp :: "store \<Rightarrow> string" where
  "sinceTimestamp s =
     (case getSyncState s of
        None \<Rightarrow> ''1970-01-01T00:00:00Z''
      | Some st \<Rightarrow>
          (if truthyStr (lastEventTimestamp st) then the (lastEventTimestamp st)
           else ''1970-01-01T00:00:00Z''))"

text \<open>The pages 2, ..., page_count, fetched in order; the first failure aborts.\<close>

fun fetchRemaining ::
    "hevy_env \<Rightarrow> string \<Rightarrow> nat list \<Rightarrow> HevyEvent list \<Rightarrow> string + HevyEvent list" where
  "fetchRemaining env since [] allEvents = Inr allEvents"
| "fetchRemaining env since (page # pages) allEvents =
     (case fetchHevyEvents env since page of
        Inl e \<Rightarrow> Inl e
      | Inr pageData \<Rightarrow> fetchRemaining env since pages (allEvents @ snd pageData))"

definition fetchAllEvents :: "hevy_env \<Rightarrow> string \<Rightarrow> string + HevyEvent list" where
  "fetchAllEvents env since =
     (case fetchHevyEvents env since 1 of
        Inl e \<Rightarrow> Inl e
      | Inr firstPage \<Rightarrow> fetchRemaining env since [2 ..< fst firstPage + 1] (snd firstPage))"

definition processEvent :: "hevy_env \<Rightarrow> nat \<times> nat \<times> store \<Rightarrow> HevyEvent \<Rightarrow> nat \<times> nat \<times> store" where
  "processEvent env acc event =
     (case acc of (updatedCount, deletedCount, s) \<Rightarrow>
        (if ev_type event = ''updated'' \<and> ev_workout event \<noteq> None
         then (updatedCount + 1, deletedCount,
               snd (upsertWorkout (dateGetTime env) (the (ev_workout event)) s))
         else if ev_type event = ''deleted'' \<and> truthyStr (ev_id event)
         then (updatedCount, deletedCount + 1, markWorkoutDeleted (the (ev_id event)) s)
         else (updatedCount, deletedCount, s)))"

definition incrementalSync :: "hevy_env \<Rightarrow> store \<Rightarrow> (string + SyncResult) \<times> store" where
  "incrementalSync env s =
     (if \<not> truthyStr (HEVY_API_KEY env) then (Inl ''HEVY_API_KEY not configured'', s)
      else
        (case fetchAllEvents env (sinceTimestamp s) of
           Inl e \<Rightarrow> (Inl e, s)
         | Inr allEvents \<Rightarrow>
             (case foldl (processEvent env) (0, 0, s) allEvents of
                (updatedCount, deletedCount, s1) \<Rightarrow>
                  (Inr \<lparr>eventsProcessed = length allEvents,
                        updated = updatedCount, deleted = deletedCount\<rparr>,
                   updateSyncState
                     \<lparr>arg_lastSyncedAt = Some (clock env 0),
                      arg_lastEventTimestamp = Some (clock env 1),
                      arg_lastError = None, arg_syncInProgress = None\<rparr> s1))))"

section \<open>HTTP entry points\<close>

text \<open>
  The JSON body of a request: unparsable (then the handler takes the empty object), the
  value \<open>null\<close>, or an object of which the three database ids are read. The actions
  started by a handler are given by their outcome: an error message or a result.
\<close>

datatype json_body = Unparsable | JsonNull | JsonObject "string option" "string option" "string option"

record http_request =
  authorization :: "string option"
  body :: json_body

datatype 'r response_body = Text string | JsonResult 'r | JsonError string

record 'r response =
  status :: nat
  content :: "'r response_body"

record 'r actions =
  runIncrementalSync :: "string + 'r"
  runFullPipeline :: "string \<Rightarrow> string \<Rightarrow> string \<Rightarrow> string + 'r"
  runFullSync :: "string + 'r"

definition unauthorized :: "string option \<Rightarrow> http_request \<Rightarrow> bool" where
  "unauthorized expectedSecret request =
     (truthyStr expectedSecret \<and> authorization request \<noteq> Some (''Bearer '' @ the expectedSecret))"

definition respond :: "string + 'r \<Rightarrow> 'r response" where
  "respond result =
     (case result of
        Inr r \<Rightarrow> \<lparr>status = 200, content = JsonResult r\<rparr>
      | Inl message \<Rightarrow> \<lparr>status = 500, content = JsonError message\<rparr>)"

text \<open>The body of the \<open>try\<close> block of the \<open>/sync\<close> handler.\<close>

definition syncTry :: "'r actions \<Rightarrow> http_request \<Rightarrow> string + 'r" where
  "syncTry acts request =
     (case body request of
        JsonNull \<Rightarrow> Inl ''Cannot read properties of null (reading 'workoutsDbId')''
      | Unparsable \<Rightarrow> runIncrementalSync acts
      | JsonObject workoutsDbId exercisesDbId setsDbId \<Rightarrow>
          (if truthyStr workoutsDbId \<and> truthyStr exercisesDbId \<and> truthyStr setsDbId
           then runFullPipeline acts (the workoutsDbId) (the exercisesDbId) (the setsDbId)
           else runIncrementalSync acts))"

definition syncHandler :: "string option \<Rightarrow> 'r actions \<Rightarrow> http_request \<Rightarrow> 'r response" where
  "syncHandler expectedSecret acts request =
     (if unauthorized expectedSecret request
      then \<lparr>status = 401, content = Text ''Unauthorized''\<rparr>
      else respond (syncTry acts request))"

definition fullSyncHandler :: "string option \<Rightarrow> 'r actions \<Rightarrow> http_request \<Rightarrow> 'r response" where
  "fullSyncHandler expectedSecret acts request =
     (if unauthorized expectedSecret request
      then \<lparr>status = 401, content = Text ''Unauthorized''\<rparr>
      else respond (runFullSync acts))"

section \<open>The batch runner\<close>

text \<open>
  The runner sees of a processor only the promise it returns for an item, and of that
  promise only how it settles: rejected with a reason (\<open>Inl\<close>) or fulfilled with a value
  (\<open>Inr\<close>). A processor is therefore given by the outcome of the promise it returns for
  the item at each position of the input; what else the processors of a group do while
  they are in flight together is not the runner's doing and is left open. Every promise
  is taken to settle.

  What the runner does is recorded in a trace: \<open>Call item\<close> for each call of the
  processor, in the order of the calls of \<open>batch.map(processor)\<close>, and \<open>AwaitAll k\<close>
  where the runner awaits \<open>Promise.allSettled\<close> of the \<open>k\<close> promises it has just created.
  \<open>Promise.allSettled\<close> reports the outcomes in the order of the group, whatever the
  order of completion.
\<close>

datatype 'a event = Call 'a | AwaitAll nat

definition slice :: "'a list \<Rightarrow> nat \<Rightarrow> nat \<Rightarrow> 'a list" where
  "slice items i j = take (j - i) (drop i items)"

text \<open>The promises of the group that starts at position \<open>i\<close>, as their outcomes.\<close>

definition startBatch :: "(nat \<Rightarrow> 'a \<Rightarrow> 'e + 'r) \<Rightarrow> nat \<Rightarrow> 'a list \<Rightarrow> ('e + 'r) list" where
  "startBatch processor i batch = map (\<lambda>k. processor (i + k) (batch ! k)) [0 ..< length batch]"

text \<open>The inner loop over \<open>batchResults\<close>.\<close>

fun collect :: "('e + 'r) list \<Rightarrow> 'r list \<times> nat \<Rightarrow> 'r list \<times> nat" where
  "collect [] acc = acc"
| "collect (Inr v # batchResults) (results, errorCount) =
     collect batchResults (results @ [v], errorCount)"
| "collect (Inl reason # batchResults) (results, errorCount) =
     collect batchResults (results, errorCount + 1)"

text \<open>
  The outer loop advances by \<open>concurrency\<close>, which nothing forces to be positive, so it
  need not end: not returning is the value \<open>None\<close>.
\<close>

partial_function (option) batchLoop ::
    "(nat \<Rightarrow> 'a \<Rightarrow> 'e + 'r) \<Rightarrow> nat \<Rightarrow> 'a list \<Rightarrow> nat \<Rightarrow> 'r list \<times> nat \<Rightarrow> 'a event list
       \<Rightarrow> (('r list \<times> nat) \<times> 'a event list) option" where
  "batchLoop processor concurrency items i acc trace =
     (if i < length items
      then batchLoop processor concurrency items (i + concurrency)
             (collect (startBatch processor i (slice items i (i + concurrency))) acc)
             (trace @ map Call (slice items i (i + concurrency))
                  @ [AwaitAll (length (slice items i (i + concurrency)))])
      else Some (acc, trace))"

definition batchProcess ::
    "'a list \<Rightarrow> (nat \<Rightarrow> 'a \<Rightarrow> 'e + 'r) \<Rightarrow> nat \<Rightarrow> (('r list \<times> nat) \<times> 'a event list) option" where
  "batchProcess items processor concurrency = batchLoop processor concurrency items 0 ([], 0) []"

section \<open>The mirror API\<close>

text \<open>
  The properties of a page are kept as the document they are computed from, together
  with the page id of the relation and the computed numbers. A request to the mirror is
  a database query by natural key, the creation of a page in a database, the update of a
  page or its archival. A reply is an HTTP failure (status and text) or a JSON object,
  of which the page ids of \<open>results\<close> and the \<open>id\<close> are read.
\<close>

datatype page_props =
    WorkoutProps workout_row
  | ExerciseProps exercise_row string nat real
  | SetProps set_row string
  | FolderProps folder_row nat
  | RoutineProps routine_row string nat nat
  | RoutineExerciseProps routineExercise_row string

datatype request =
    QueryDatabase string string
  | CreatePage string page_props
  | UpdatePage string page_props
  | ArchivePage string

datatype reply = HttpError string string | Ok "string list" string

text \<open>
  The mirror is outside the system: \<open>notionApi env n req\<close> is its reply to the request
  \<open>req\<close> when \<open>n\<close> requests have been sent before. The world of an action is the
  store and the requests sent so far.
\<close>

record notion_env =
  NOTION_TOKEN :: "string option"
  notionApi :: "nat \<Rightarrow> request \<Rightarrow> reply"

record world =
  db :: store
  sent :: "request list"

definition notionRequest ::
    "notion_env \<Rightarrow> request \<Rightarrow> world \<Rightarrow> (string + string list \<times> string) \<times> world" where
  "notionRequest env req w =
     (if \<not> truthyStr (NOTION_TOKEN env) then (Inl ''NOTION_TOKEN not configured'', w)
      else
        (case notionApi env (length (sent w)) req of
           HttpError code text \<Rightarrow>
             (Inl (''Notion API error: '' @ code @ '' - '' @ text), w\<lparr>sent := sent w @ [req]\<rparr>)
         | Ok results page \<Rightarrow> (Inr (results, page), w\<lparr>sent := sent w @ [req]\<rparr>)))"

text \<open>A loop whose body may throw: the first failure ends it.\<close>

fun forEachE :: "('a \<Rightarrow> 'w \<Rightarrow> ('e + unit) \<times> 'w) \<Rightarrow> 'a list \<Rightarrow> 'w \<Rightarrow> ('e + unit) \<times> 'w" where
  "forEachE f [] w = (Inr (), w)"
| "forEachE f (x # xs) w =
     (case f x w of
        (Inl e, w') \<Rightarrow> (Inl e, w')
      | (Inr u, w') \<Rightarrow> forEachE f xs w')"

section \<open>Pushing workouts to the mirror\<close>

record NotionDatabases =
  workoutsDbId :: string
  exercisesDbId :: string
  setsDbId :: string

definition exerciseVolume :: "set_row list \<Rightarrow> real" where
  "exerciseVolume rows =
     foldl (\<lambda>v st. if truthy (weightKg st) \<and> truthy (s_reps st)
                   then v + the (weightKg st) * the (s_reps st) else v) 0 rows"

definition createSetPage ::
    "notion_env \<Rightarrow> NotionDatabases \<Rightarrow> string \<Rightarrow> set_row \<Rightarrow> world \<Rightarrow> (string + unit) \<times> world" where
  "createSetPage env dbs exercisePageId st w =
     (case notionRequest env (CreatePage (setsDbId dbs) (SetProps st exercisePageId)) w of
        (Inl e, w') \<Rightarrow> (Inl e, w')
      | (Inr page, w') \<Rightarrow> (Inr (), w'))"

definition syncExercise ::
    "notion_env \<Rightarrow> NotionDatabases \<Rightarrow> string \<Rightarrow> exercise_row \<Rightarrow> world \<Rightarrow> (string + unit) \<times> world" where
  "syncExercise env dbs workoutPageId exercise w =
     (let rows = getExerciseSets (e_id exercise) (db w) in
      case notionRequest env
             (CreatePage (exercisesDbId dbs)
                (ExerciseProps exercise workoutPageId (length rows) (round1 (exerciseVolume rows)))) w of
        (Inl e, w') \<Rightarrow> (Inl e, w')
      | (Inr exercisePage, w') \<Rightarrow> forEachE (createSetPage env dbs (snd exercisePage)) rows w')"

text \<open>
  The page id the workout page is written to: the stored one, or else the first result
  of the search by natural key, or else none.
\<close>

definition findWorkoutPage ::
    "notion_env \<Rightarrow> NotionDatabases \<Rightarrow> workout_row \<Rightarrow> world \<Rightarrow> (string + string option) \<times> world" where
  "findWorkoutPage env dbs workout w =
     (if truthyStr (notionPageId workout) then (Inr (notionPageId workout), w)
      else
        (case notionRequest env (QueryDatabase (workoutsDbId dbs) (hevyId workout)) w of
           (Inl e, w') \<Rightarrow> (Inl e, w')
         | (Inr searchResult, w') \<Rightarrow>
             (case fst searchResult of
                [] \<Rightarrow> (Inr (notionPageId workout), w')
              | page # others \<Rightarrow> (Inr (Some page), w'))))"

definition putWorkoutPage ::
    "notion_env \<Rightarrow> NotionDatabases \<Rightarrow> workout_row \<Rightarrow> string option \<Rightarrow> world \<Rightarrow> (string + string) \<times> world" where
  "putWorkoutPage env dbs workout workoutPageId w =
     (if truthyStr workoutPageId
      then
        (case notionRequest env (UpdatePage (the workoutPageId) (WorkoutProps workout)) w of
           (Inl e, w') \<Rightarrow> (Inl e, w')
         | (Inr page, w') \<Rightarrow> (Inr (the workoutPageId), w'))
      else
        (case notionRequest env (CreatePage (workoutsDbId dbs) (WorkoutProps workout)) w of
           (Inl e, w') \<Rightarrow> (Inl e, w')
         | (Inr newPage, w') \<Rightarrow> (Inr (snd newPage), w')))"

text \<open>The body of the \<open>try\<close> block for one workout.\<close>

definition syncWorkout ::
    "notion_env \<Rightarrow> NotionDatabases \<Rightarrow> workout_row \<Rightarrow> world \<Rightarrow> (string + unit) \<times> world" where
  "syncWorkout env dbs workout w =
     (if isDeleted workout \<and> truthyStr (notionPageId workout)
      then
        (case notionRequest env (ArchivePage (the (notionPageId workout))) w of
           (Inl e, w') \<Rightarrow> (Inl e, w')
         | (Inr page, w') \<Rightarrow>
             (Inr (), w'\<lparr>db := markWorkoutSynced (w_id workout) (the (notionPageId workout)) (db w')\<rparr>))
      else
        (case findWorkoutPage env dbs workout w of
           (Inl e, w1) \<Rightarrow> (Inl e, w1)
         | (Inr found, w1) \<Rightarrow>
             (case putWorkoutPage env dbs workout found w1 of
                (Inl e, w2) \<Rightarrow> (Inl e, w2)
              | (Inr workoutPageId, w2) \<Rightarrow>
                  (case forEachE (syncExercise env dbs workoutPageId)
                          (getWorkoutExercises (w_id workout) (db w2)) w2 of
                     (Inl e, w3) \<Rightarrow> (Inl e, w3)
                   | (Inr u, w3) \<Rightarrow>
                       (Inr (), w3\<lparr>db := markWorkoutSynced (w_id workout) workoutPageId (db w3)\<rparr>)))))"

record PushResult =
  synced :: nat
  errors :: nat
  total :: nat

definition syncStep ::
    "notion_env \<Rightarrow> NotionDatabases \<Rightarrow> nat \<times> nat \<times> world \<Rightarrow> workout_row \<Rightarrow> nat \<times> nat \<times> world" where
  "syncStep env dbs acc workout =
     (case acc of (syncedCount, errorCount, w) \<Rightarrow>
        (case syncWorkout env dbs workout w of
           (Inr u, w') \<Rightarrow> (syncedCount + 1, errorCount, w')
         | (Inl e, w') \<Rightarrow> (syncedCount, errorCount + 1, w')))"

definition syncToNotion ::
    "notion_env \<Rightarrow> NotionDatabases \<Rightarrow> world \<Rightarrow> (string + PushResult) \<times> world" where
  "syncToNotion env dbs w =
     (let unsynced = getUnsyncedWorkouts (db w) in
      case foldl (syncStep env dbs) (0, 0, w) unsynced of
        (syncedCount, errorCount, w') \<Rightarrow>
          (Inr \<lparr>synced = syncedCount, errors = errorCount, total = length unsynced\<rparr>, w'))"

section \<open>Pushing routines to the mirror\<close>

text \<open>
  The bodies of the three processors that \<open>syncRoutinesToNotion\<close> hands to the batch
  runner: for an unsynced routine folder, for a routine of a folder just pushed, and for
  an exercise of a routine just pushed. Each is given as it runs on its own: it reads,
  sends one request and marks its document. The progression data that the third
  processor reads from the exercise-progress table only adds properties to the page and
  is left out.
\<close>

record RoutineDatabases =
  programsDbId :: string
  routinesDbId :: string
  routineExercisesDbId :: string

definition pushFolder ::
    "notion_env \<Rightarrow> RoutineDatabases \<Rightarrow> folder_row \<Rightarrow> world
       \<Rightarrow> (string + folder_row \<times> string \<times> routine_row list) \<times> world" where
  "pushFolder env dbs folder w =
     (let rs = getRoutinesByFolder (f_id folder) (db w) in
      case notionRequest env (CreatePage (programsDbId dbs) (FolderProps folder (length rs))) w of
        (Inl e, w') \<Rightarrow> (Inl e, w')
      | (Inr newPage, w') \<Rightarrow>
          (Inr (folder, snd newPage, rs),
           w'\<lparr>db := markRoutineFolderSynced (f_id folder) (snd newPage) (db w')\<rparr>))"

definition pushRoutine ::
    "notion_env \<Rightarrow> RoutineDatabases \<Rightarrow> routine_row \<times> string \<times> routineExercise_row list \<Rightarrow> world
       \<Rightarrow> (string + string \<times> routineExercise_row list) \<times> world" where
  "pushRoutine env dbs item w =
     (case item of (routine, folderPageId, exs) \<Rightarrow>
        (case notionRequest env
                (CreatePage (routinesDbId dbs)
                   (RoutineProps routine folderPageId (length exs)
                      (foldl (\<lambda>n ex. n + targetSets ex) 0 exs))) w of
           (Inl e, w') \<Rightarrow> (Inl e, w')
         | (Inr newPage, w') \<Rightarrow>
             (Inr (snd newPage, exs),
              w'\<lparr>db := markRoutineSynced (r_id routine) (snd newPage) (db w')\<rparr>)))"

definition pushRoutineExercise ::
    "notion_env \<Rightarrow> RoutineDatabases \<Rightarrow> routineExercise_row \<times> string \<Rightarrow> world
       \<Rightarrow> (string + string) \<times> world" where
  "pushRoutineExercise env dbs item w =
     (case item of (exercise, routinePageId) \<Rightarrow>
        (case notionRequest env
                (CreatePage (routineExercisesDbId dbs) (RoutineExerciseProps exercise routinePageId)) w of
           (Inl e, w') \<Rightarrow> (Inl e, w')
         | (Inr exercisePage, w') \<Rightarrow>
             (Inr (snd exercisePage),
              w'\<lparr>db := markRoutineExerciseSynced (re_id exercise) (snd exercisePage) (db w')\<rparr>)))"

section \<open>Auxiliary notions used in the statements\<close>

text \<open>What one set adds to the volume and to the repetition count.\<close>

definition setVolume :: "HevySet \<Rightarrow> real" where
  "setVolume st =
     (if truthy (reps st) \<and> truthy (weight_kg st) then the (weight_kg st) * the (reps st) else 0)"

definition setReps :: "HevySet \<Rightarrow> real" where
  "setReps st = (if truthy (reps st) then the (reps st) else 0)"

text \<open>The set list \<open>[{weight:100,reps:5},{weight:null,reps:8},{weight:50,reps:10}]\<close>.\<close>

definition mkSet :: "int \<Rightarrow> real option \<Rightarrow> real option \<Rightarrow> HevySet" where
  "mkSet i w r = \<lparr>set_index = i, set_type = ''normal'', weight_kg = w, reps = r,
     distance_meters = None, duration_seconds = None, rpe = None, custom_metric = None\<rparr>"

definition specSets :: "HevySet list" where
  "specSets = [mkSet 0 (Some 100) (Some 5), mkSet 1 None (Some 8), mkSet 2 (Some 50) (Some 10)]"

definition specExercise :: HevyExercise where
  "specExercise = \<lparr>ex_index = 0, ex_title = ''Squat (Barbell)'', ex_notes = None,
     exercise_template_id = ''D04AC939'', superset_id = None, ex_sets = specSets\<rparr>"

definition specWorkout :: HevyWorkout where
  "specWorkout = \<lparr>hw_id = ''b459cba5'', hw_title = ''Leg day'', hw_description = None,
     start_time = ''2024-01-01T10:00:00Z'', end_time = Some ''2024-01-01T11:15:00Z'',
     hw_exercises = [specExercise]\<rparr>"

text \<open>
  The shape of the children of a workout: for each of its exercise documents, in order,
  the number of its set documents.
\<close>

definition kids :: "store \<Rightarrow> nat \<Rightarrow> nat list" where
  "kids s wid = map (\<lambda>e. length (getExerciseSets (e_id e) s)) (getWorkoutExercises wid s)"

text \<open>
  Well-formedness of the workout tables: the natural key identifies a workout, and every
  identifier stored in a document was handed out by the counter.
\<close>

definition refs_ok :: "store \<Rightarrow> bool" where
  "refs_ok s \<longleftrightarrow>
     (\<forall>x\<in>set (sets s). exerciseId x < nextId s)
     \<and> (\<forall>e\<in>set (exercises s). e_id e < nextId s \<and> workoutId e < nextId s)"

definition workout_inv :: "store \<Rightarrow> bool" where
  "workout_inv s \<longleftrightarrow>
     distinct (map hevyId (workouts s))
     \<and> distinct (map w_id (workouts s))
     \<and> (\<forall>r\<in>set (workouts s). w_id r < nextId s)
     \<and> refs_ok s"








text \<open>The store after the example workout has been upserted into the empty store.\<close>

definition specStore :: store where
  "specStore = snd (upsertWorkout (\<lambda>t. 0) specWorkout emptyStore)"

text \<open>The same store after a \<open>deleted\<close> event for that workout.\<close>

definition deletedStore :: store where
  "deletedStore = markWorkoutDeleted (hw_id specWorkout) specStore"

text \<open>An environment of the source API for the examples: one page with two events.\<close>

definition specHevyEnv :: hevy_env where
  "specHevyEnv =
     \<lparr>HEVY_API_KEY = Some ''key'',
      fetchHevyEvents = (\<lambda>since page.
        Inr (1, [\<lparr>ev_type = ''updated'', ev_workout = Some specWorkout, ev_id = None\<rparr>,
                 \<lparr>ev_type = ''deleted'', ev_workout = None, ev_id = Some ''0c1f22''\<rparr>])),
      clock = (\<lambda>n. ''2024-06-01T12:00:00.000Z''),
      dateGetTime = (\<lambda>t. 0)\<rparr>"

text \<open>Actions that all succeed, and a request without an Authorization header.\<close>

definition okActions :: "unit actions" where
  "okActions = \<lparr>runIncrementalSync = Inr (), runFullPipeline = (\<lambda>a b c. Inr ()),
     runFullSync = Inr ()\<rparr>"

definition failingActions :: "unit actions" where
  "failingActions = \<lparr>runIncrementalSync = Inl ''Rate limited by Hevy API'',
     runFullPipeline = (\<lambda>a b c. Inl ''Rate limited by Hevy API''),
     runFullSync = Inl ''Hevy API error: 500''\<rparr>"

definition bareRequest :: http_request where
  "bareRequest = \<lparr>authorization = None, body = Unparsable\<rparr>"

text \<open>
  The groups of at most \<open>n\<close> consecutive items, for a positive bound, and the trace of
  a runner that calls the processor on the items of one group after the other and awaits
  each group before it starts the next.
\<close>

fun batches :: "nat \<Rightarrow> 'a list \<Rightarrow> 'a list list" where
  "batches n items =
     (if n = 0 \<or> items = [] then [] else take n items # batches n (drop n items))"

declare batches.simps [simp del]

definition groupLog :: "'a list list \<Rightarrow> 'a event list" where
  "groupLog groups = concat (map (\<lambda>g. map Call g @ [AwaitAll (length g)]) groups)"

text \<open>
  The number of promises in flight after a trace: created by a call and not yet awaited.
\<close>

fun pendingAfter :: "nat \<Rightarrow> 'a event list \<Rightarrow> nat" where
  "pendingAfter pending [] = pending"
| "pendingAfter pending (Call x # trace) = pendingAfter (Suc pending) trace"
| "pendingAfter pending (AwaitAll k # trace) = pendingAfter (pending - k) trace"

definition inFlight :: "'a event list \<Rightarrow> nat" where
  "inFlight trace = pendingAfter 0 trace"

text \<open>The items the processor was called on, in the order of the calls.\<close>

fun calledItems :: "'a event list \<Rightarrow> 'a list" where
  "calledItems [] = []"
| "calledItems (Call x # trace) = x # calledItems trace"
| "calledItems (AwaitAll k # trace) = calledItems trace"

text \<open>
  The outcomes of the promises in the order of the items, and the values and the number
  of rejections among outcomes.
\<close>

definition settled :: "(nat \<Rightarrow> 'a \<Rightarrow> 'e + 'r) \<Rightarrow> 'a list \<Rightarrow> ('e + 'r) list" where
  "settled processor items = map (\<lambda>k. processor k (items ! k)) [0 ..< length items]"

fun fulfilled :: "('e + 'r) list \<Rightarrow> 'r list" where
  "fulfilled [] = []"
| "fulfilled (Inr v # os) = v # fulfilled os"
| "fulfilled (Inl e # os) = fulfilled os"

fun rejected :: "('e + 'r) list \<Rightarrow> nat" where
  "rejected [] = 0"
| "rejected (Inr v # os) = rejected os"
| "rejected (Inl e # os) = Suc (rejected os)"

text \<open>
  A processor for the examples: its promise is rejected for an even item and fulfilled
  with ten times the item for an odd one.
\<close>

definition oddProcessor :: "nat \<Rightarrow> nat \<Rightarrow> string + nat" where
  "oddProcessor k x = (if even x then Inl ''even item'' else Inr (x * 10))"

text \<open>
  The requests that create a child page of a workout, and the replies that are failures.
\<close>

fun isChildCreate :: "request \<Rightarrow> bool" where
  "isChildCreate (CreatePage d (ExerciseProps e p n v)) = True"
| "isChildCreate (CreatePage d (SetProps s p)) = True"
| "isChildCreate req = False"

fun isFailure :: "reply \<Rightarrow> bool" where
  "isFailure (HttpError code text) = True"
| "isFailure (Ok results page) = False"

text \<open>A mirror that answers every request without failure, for a configured token.\<close>

definition reliable :: "notion_env \<Rightarrow> bool" where
  "reliable env \<longleftrightarrow> truthyStr (NOTION_TOKEN env) \<and> (\<forall>n req. \<not> isFailure (notionApi env n req))"

text \<open>The world in which the \<open>i\<close>-th unsynced workout of a pass is processed.\<close>

definition worldBefore ::
    "notion_env \<Rightarrow> NotionDatabases \<Rightarrow> workout_row list \<Rightarrow> world \<Rightarrow> nat \<Rightarrow> world" where
  "worldBefore env dbs unsynced w i = snd (snd (foldl (syncStep env dbs) (0, 0, w) (take i unsynced)))"

text \<open>The trace grows by requests of one kind.\<close>

definition grows :: "(request \<Rightarrow> bool) \<Rightarrow> world \<Rightarrow> world \<Rightarrow> bool" where
  "grows K w w' \<longleftrightarrow> (\<exists>rest. sent w' = sent w @ rest \<and> list_all K rest)"

text \<open>Worlds and mirrors for the examples.\<close>

definition specWorld :: world where
  "specWorld = \<lparr>db = specStore, sent = []\<rparr>"

definition specDbs :: NotionDatabases where
  "specDbs = \<lparr>workoutsDbId = ''db-workouts'', exercisesDbId = ''db-exercises'',
     setsDbId = ''db-sets''\<rparr>"

definition noTokenEnv :: notion_env where
  "noTokenEnv = \<lparr>NOTION_TOKEN = None, notionApi = (\<lambda>n req. Ok [] ''page-new'')\<rparr>"

definition failingEnv :: notion_env where
  "failingEnv = \<lparr>NOTION_TOKEN = Some ''secret'',
     notionApi = (\<lambda>n req. HttpError ''502'' ''Bad Gateway'')\<rparr>"

text \<open>
  A mirror in which every search by natural key finds the page \<open>page-old\<close> and every
  created page gets the id \<open>page-new\<close>; and one in which no search finds a page.
\<close>

definition adoptingEnv :: notion_env where
  "adoptingEnv = \<lparr>NOTION_TOKEN = Some ''secret'',
     notionApi = (\<lambda>n req. Ok [''page-old''] ''page-new'')\<rparr>"

definition emptyMirrorEnv :: notion_env where
  "emptyMirrorEnv = \<lparr>NOTION_TOKEN = Some ''secret'',
     notionApi = (\<lambda>n req. Ok [] ''page-new'')\<rparr>"

text \<open>The world after the workout was deleted before it was ever mirrored.\<close>

definition deletedWorld :: world where
  "deletedWorld = \<lparr>db = deletedStore, sent = []\<rparr>"

definition deletedRow :: workout_row where
  "deletedRow = (newWorkout (\<lambda>t. 0) specWorkout 0)\<lparr>isDeleted := True, syncedToNotion := False\<rparr>"

text \<open>A routine folder that was never mirrored, and the databases of the routine pass.\<close>

definition specFolder :: HevyRoutineFolder where
  "specFolder = \<lparr>hf_id = 77, hf_index = 1, hf_title = ''Week 1'',
     hf_updated_at = ''2024-01-01T00:00:00Z''\<rparr>"

definition folderStore :: store where
  "folderStore = snd (upsertRoutineFolder specFolder emptyStore)"

definition specFolderRow :: folder_row where
  "specFolderRow = \<lparr>f_id = 0, f_hevyId = 77, f_title = ''Week 1'', f_index = 1,
     f_weekNumber = parseWeekNumber ''Week 1'',
     f_sortOrder = orZero (parseWeekNumber ''Week 1'') * 100 + 1,
     f_notionPageId = None, f_syncedToNotion = False,
     f_updatedAt = ''2024-01-01T00:00:00Z''\<rparr>"

definition specRoutineDbs :: RoutineDatabases where
  "specRoutineDbs = \<lparr>programsDbId = ''db-programs'', routinesDbId = ''db-routines'',
     routineExercisesDbId = ''db-routine-exercises''\<rparr>"



section \<open>Statistics\<close>

lemma foldl_addSet:
  "foldl addSet (v, n, r) xs =
     (v + sum_list (map setVolume xs), n + length xs, r + sum_list (map setReps xs))"
  by (induction xs arbitrary: v n r) (simp_all add: addSet_def setVolume_def setReps_def)

lemma foldl_addExercise:
  "foldl addExercise (v, n, r) exs =
     (v + sum_list (map setVolume (concat (map ex_sets exs))),
      n + length (concat (map ex_sets exs)),
      r + sum_list (map setReps (concat (map ex_sets exs))))"
  by (induction exs arbitrary: v n r) (simp_all add: addExercise_def foldl_addSet)

lemma sumStats_closed:
  "sumStats exs =
     (sum_list (map setVolume (concat (map ex_sets exs))),
      length (concat (map ex_sets exs)),
      sum_list (map setReps (concat (map ex_sets exs))))"
  by (simp add: sumStats_def foldl_addExercise)

lemma sumStats_specExercise: "sumStats [specExercise] = (1000, 3, 23)"
  by (simp add: sumStats_closed specExercise_def specSets_def mkSet_def setVolume_def setReps_def)

section \<open>Inserting children\<close>

lemma insertSets_frame:
  "workouts (foldl (insertSet eid wid) s sts) = workouts s"
  "exercises (foldl (insertSet eid wid) s sts) = exercises s"
  "nextId (foldl (insertSet eid wid) s sts) = nextId s + length sts"
  by (induction sts arbitrary: s) (simp_all add: insertSet_def)

lemma insertSets_sets:
  "\<exists>news. sets (foldl (insertSet eid wid) s sts) = sets s @ news \<and> length news = length sts
      \<and> (\<forall>x\<in>set news. exerciseId x = eid)"
proof (induction sts arbitrary: s)
  case Nil
  show ?case by simp
next
  case (Cons st sts)
  obtain news where n: "sets (foldl (insertSet eid wid) (insertSet eid wid s st) sts)
      = sets (insertSet eid wid s st) @ news" "length news = length sts" "\<forall>x\<in>set news. exerciseId x = eid"
    using Cons.IH by blast
  obtain row where r: "sets (insertSet eid wid s st) = sets s @ [row]" "exerciseId row = eid"
    by (simp add: insertSet_def)
  show ?case
    by (rule exI[of _ "row # news"]) (simp add: n r)
qed

lemma insertExercise_frame:
  "workouts (insertExercise wid s ex) = workouts s"
  "nextId (insertExercise wid s ex) = nextId s + 1 + length (ex_sets ex)"
  by (simp_all add: insertExercise_def insertSets_frame)

lemma insertExercise_exercises:
  "\<exists>row. exercises (insertExercise wid s ex) = exercises s @ [row] \<and> e_id row = nextId s \<and> workoutId row = wid"
  by (simp add: insertExercise_def insertSets_frame)

lemma insertExercise_sets:
  "\<exists>news. sets (insertExercise wid s ex) = sets s @ news \<and> length news = length (ex_sets ex)
      \<and> (\<forall>x\<in>set news. exerciseId x = nextId s)"
proof -
  let ?s1 = "s\<lparr>nextId := nextId s + 1,
          exercises := exercises s @
            [\<lparr>e_id = nextId s, workoutId = wid, hevyExerciseIndex = ex_index ex,
              exerciseTemplateId = exercise_template_id ex, e_title = ex_title ex,
              e_notes = orUndefinedStr (ex_notes ex),
              supersetId = orUndefined (superset_id ex),
              e_notionPageId = None, e_syncedToNotion = False\<rparr>]\<rparr>"
  obtain news where "sets (foldl (insertSet (nextId s) wid) ?s1 (ex_sets ex)) = sets ?s1 @ news"
    "length news = length (ex_sets ex)" "\<forall>x\<in>set news. exerciseId x = nextId s"
    using insertSets_sets[of "nextId s" wid ?s1 "ex_sets ex"] by blast
  then show ?thesis
    by (simp add: insertExercise_def)
qed

lemma insertExercises_workouts:
  "workouts (foldl (insertExercise wid) s exs) = workouts s"
  by (induction exs arbitrary: s) (simp_all add: insertExercise_frame)

lemma insertExercise_kids:
  assumes "refs_ok s" "wid < nextId s"
  shows "kids (insertExercise wid s ex) wid = kids s wid @ [length (ex_sets ex)]"
    and "refs_ok (insertExercise wid s ex)"
proof -
  obtain row where row: "exercises (insertExercise wid s ex) = exercises s @ [row]"
      "e_id row = nextId s" "workoutId row = wid"
    using insertExercise_exercises by blast
  obtain news where news: "sets (insertExercise wid s ex) = sets s @ news"
      "length news = length (ex_sets ex)" "\<forall>x\<in>set news. exerciseId x = nextId s"
    using insertExercise_sets by blast
  have old: "filter (\<lambda>x. exerciseId x = e_id e) news = []" if "e \<in> set (exercises s)" for e
    using that assms(1) news(3) by (auto simp: refs_ok_def filter_empty_conv)
  have new1: "filter (\<lambda>x. exerciseId x = nextId s) (sets s) = []"
    using assms(1) by (auto simp: refs_ok_def filter_empty_conv)
  have new2: "filter (\<lambda>x. exerciseId x = nextId s) news = news"
    using news(3) by (simp add: filter_id_conv)
  show "kids (insertExercise wid s ex) wid = kids s wid @ [length (ex_sets ex)]"
    by (simp add: kids_def getWorkoutExercises_def getExerciseSets_def row news old new1 new2)
  show "refs_ok (insertExercise wid s ex)"
    using assms news(3)
    by (auto simp: refs_ok_def row news insertExercise_frame)
qed

lemma insertExercises_kids:
  assumes "refs_ok s" "wid < nextId s"
  shows "kids (foldl (insertExercise wid) s exs) wid = kids s wid @ map (\<lambda>ex. length (ex_sets ex)) exs
     \<and> refs_ok (foldl (insertExercise wid) s exs)"
  using assms
proof (induction exs arbitrary: s)
  case Nil
  then show ?case by simp
next
  case (Cons ex exs)
  have "wid < nextId (insertExercise wid s ex)"
    using Cons.prems(2) by (simp add: insertExercise_frame)
  with Cons.IH[OF insertExercise_kids(2)[OF Cons.prems]] insertExercise_kids(1)[OF Cons.prems]
  show ?case by simp
qed

lemma insertExercises_nextId:
  "nextId s \<le> nextId (foldl (insertExercise wid) s exs)"
proof (induction exs arbitrary: s)
  case Nil
  show ?case by simp
next
  case (Cons ex exs)
  have "nextId s \<le> nextId (insertExercise wid s ex)"
    by (simp add: insertExercise_frame)
  with Cons.IH[of "insertExercise wid s ex"] show ?case by simp
qed

section \<open>Queries\<close>

lemma first_Some: "first p xs = Some e \<Longrightarrow> e \<in> set xs \<and> p e"
proof -
  assume "first p xs = Some e"
  then obtain rest where "filter p xs = e # rest"
    by (auto simp: first_def split: list.splits)
  then have "e \<in> set (filter p xs)" by simp
  then show ?thesis by simp
qed

lemma first_None: "first p xs = None \<longleftrightarrow> (\<forall>x\<in>set xs. \<not> p x)"
proof (cases "filter p xs")
  case Nil
  then show ?thesis by (simp add: first_def filter_empty_conv)
next
  case (Cons y ys)
  then have "y \<in> set (filter p xs)" by simp
  then have "y \<in> set xs \<and> p y" by simp
  with Cons show ?thesis by (auto simp: first_def)
qed




section \<open>Deleting children\<close>

lemma deleteSets_frame:
  "workouts (foldl deleteSet s rs) = workouts s"
  "exercises (foldl deleteSet s rs) = exercises s"
  "nextId (foldl deleteSet s rs) = nextId s"
  by (induction rs arbitrary: s) (auto simp: deleteSet_def)

lemma deleteSets_sets: "set (sets (foldl deleteSet s rs)) \<subseteq> set (sets s)"
proof (induction rs arbitrary: s)
  case Nil
  show ?case by simp
next
  case (Cons r rs)
  have "set (sets (deleteSet s r)) \<subseteq> set (sets s)"
    by (auto simp: deleteSet_def)
  with Cons.IH[of "deleteSet s r"] show ?case by auto
qed

lemma deleteExercise_frame:
  "workouts (deleteExercise s ex) = workouts s"
  "nextId (deleteExercise s ex) = nextId s"
  "set (sets (deleteExercise s ex)) \<subseteq> set (sets s)"
  "exercises (deleteExercise s ex) = filter (\<lambda>x. e_id x \<noteq> e_id ex) (exercises s)"
  using deleteSets_sets[of s] by (auto simp: deleteExercise_def Let_def deleteSets_frame)

lemma deleteExercises_frame:
  "workouts (foldl deleteExercise s xs) = workouts s"
  "nextId (foldl deleteExercise s xs) = nextId s"
  "set (sets (foldl deleteExercise s xs)) \<subseteq> set (sets s)"
  "exercises (foldl deleteExercise s xs) = filter (\<lambda>x. e_id x \<notin> e_id ` set xs) (exercises s)"
proof (induction xs arbitrary: s)
  case Nil
  {
    case 1 show ?case by simp
  next
    case 2 show ?case by simp
  next
    case 3 show ?case by simp
  next
    case 4 show ?case by simp
  }
next
  case (Cons x xs)
  {
    case 1 show ?case by (simp add: Cons.IH deleteExercise_frame)
  next
    case 2 show ?case by (simp add: Cons.IH deleteExercise_frame)
  next
    case 3 show ?case using Cons.IH(3)[of "deleteExercise s x"] deleteExercise_frame(3)[of s x] by auto
  next
    case 4 show ?case by (auto simp add: Cons.IH deleteExercise_frame intro: filter_cong)
  }
qed

section \<open>Claim C2: aggregate statistics\<close>

text \<open>
  C2 (as the code has it). For the set list
  \<open>[{weight:100,reps:5},{weight:null,reps:8},{weight:50,reps:10}]\<close> both
  \<open>calculateWorkoutStats\<close> and the workout document written by \<open>upsertWorkout\<close> have
  totalVolume 1000, totalSets 3 and totalReps 23: the set without a weight still adds
  its 8 repetitions. In general a set whose weight or whose repetition count is null,
  placed anywhere in any exercise, leaves the volume as it is (before and after
  rounding) and adds one to the number of sets.
\<close>

theorem workout_stats:
  "calculateWorkoutStats [specExercise] =
     \<lparr>stats_totalVolume = 1000, stats_totalSets = 3, stats_totalReps = 23\<rparr>
   \<and> map (\<lambda>r. (totalVolume r, totalSets r, totalReps r))
        (workouts (snd (upsertWorkout getTime specWorkout emptyStore))) = [(1000, 3, 23)]
   \<and> (weight_kg st = None \<or> reps st = None \<longrightarrow>
        fst (sumStats (exs1 @ ex\<lparr>ex_sets := pre @ st # post\<rparr> # exs2))
          = fst (sumStats (exs1 @ ex\<lparr>ex_sets := pre @ post\<rparr> # exs2))
      \<and> fst (snd (sumStats (exs1 @ ex\<lparr>ex_sets := pre @ st # post\<rparr> # exs2)))
          = fst (snd (sumStats (exs1 @ ex\<lparr>ex_sets := pre @ post\<rparr> # exs2))) + 1
      \<and> stats_totalVolume (calculateWorkoutStats (exs1 @ ex\<lparr>ex_sets := pre @ st # post\<rparr> # exs2))
          = stats_totalVolume (calculateWorkoutStats (exs1 @ ex\<lparr>ex_sets := pre @ post\<rparr> # exs2))
      \<and> stats_totalSets (calculateWorkoutStats (exs1 @ ex\<lparr>ex_sets := pre @ st # post\<rparr> # exs2))
          = stats_totalSets (calculateWorkoutStats (exs1 @ ex\<lparr>ex_sets := pre @ post\<rparr> # exs2)) + 1)"
proof -
  have a: "calculateWorkoutStats [specExercise] =
     \<lparr>stats_totalVolume = 1000, stats_totalSets = 3, stats_totalReps = 23\<rparr>"
    by (simp add: calculateWorkoutStats_def sumStats_specExercise round1_def mathRound_def)
  have b: "map (\<lambda>r. (totalVolume r, totalSets r, totalReps r))
        (workouts (snd (upsertWorkout getTime specWorkout emptyStore))) = [(1000, 3, 23)]"
    by (simp add: upsertWorkout_def first_def emptyStore_def newWorkout_def specWorkout_def
        sumStats_specExercise round1_def mathRound_def insertExercise_frame)
  have c: "setVolume st = 0" if "weight_kg st = None \<or> reps st = None"
    using that by (auto simp: setVolume_def)
  show ?thesis
    using a b c by (auto simp: sumStats_closed calculateWorkoutStats_def)
qed

theorem workout_stats_witness:
  "(weight_kg (mkSet 1 None (Some 8)) = None \<or> reps (mkSet 1 None (Some 8)) = None)
   \<and> fst (sumStats ([] @ specExercise\<lparr>ex_sets := [mkSet 0 (Some 100) (Some 5)] @ mkSet 1 None (Some 8) # [mkSet 2 (Some 50) (Some 10)]\<rparr> # [])) = 1000
   \<and> fst (sumStats ([] @ specExercise\<lparr>ex_sets := [mkSet 0 (Some 100) (Some 5)] @ [mkSet 2 (Some 50) (Some 10)]\<rparr> # [])) = 1000
   \<and> fst (snd (sumStats ([] @ specExercise\<lparr>ex_sets := [mkSet 0 (Some 100) (Some 5)] @ mkSet 1 None (Some 8) # [mkSet 2 (Some 50) (Some 10)]\<rparr> # []))) = 3
   \<and> fst (snd (sumStats ([] @ specExercise\<lparr>ex_sets := [mkSet 0 (Some 100) (Some 5)] @ [mkSet 2 (Some 50) (Some 10)]\<rparr> # []))) + 1 = 3"
proof -
  have h: "weight_kg (mkSet 1 None (Some 8)) = None \<or> reps (mkSet 1 None (Some 8)) = None"
    by (simp add: mkSet_def)
  have v: "fst (sumStats ([] @ specExercise\<lparr>ex_sets := [mkSet 0 (Some 100) (Some 5)] @ [mkSet 2 (Some 50) (Some 10)]\<rparr> # [])) = 1000"
    and n: "fst (snd (sumStats ([] @ specExercise\<lparr>ex_sets := [mkSet 0 (Some 100) (Some 5)] @ [mkSet 2 (Some 50) (Some 10)]\<rparr> # []))) = 2"
    by (simp_all add: sumStats_closed specExercise_def mkSet_def setVolume_def)
  show ?thesis
    using h v n
      workout_stats [where getTime = "\<lambda>t. 0" and st = "mkSet 1 None (Some 8)" and ?exs1.0 = "[]"
        and ex = specExercise and pre = "[mkSet 0 (Some 100) (Some 5)]"
        and post = "[mkSet 2 (Some 50) (Some 10)]" and ?exs2.0 = "[]"]
    by simp
qed

text \<open>
  On the example, the repetition total is 23, not the 15 of the specification's
  example.
\<close>

theorem workout_stats_counterexample:
  "stats_totalReps (calculateWorkoutStats [specExercise]) = 23
   \<and> stats_totalReps (calculateWorkoutStats [specExercise]) \<noteq> 15
   \<and> map totalReps (workouts (snd (upsertWorkout (\<lambda>t. 0) specWorkout emptyStore))) = [23]"
  by (simp add: calculateWorkoutStats_def sumStats_specExercise upsertWorkout_def first_def
      emptyStore_def newWorkout_def specWorkout_def insertExercise_frame)

section \<open>Upserting a workout\<close>

lemma patchWorkout_keys [simp]:
  "w_id (patchWorkout g w r) = w_id r"
  "hevyId (patchWorkout g w r) = hevyId r"
  "notionPageId (patchWorkout g w r) = notionPageId r"
  by (simp_all add: patchWorkout_def split: prod.splits)



lemma newWorkout_keys [simp]:
  "w_id (newWorkout g w i) = i"
  "hevyId (newWorkout g w i) = hw_id w"
  by (simp_all add: newWorkout_def split: prod.splits)

lemma deleteExercises_kids:
  assumes "refs_ok s" "xs = filter (\<lambda>x. workoutId x = wid) (exercises s)"
  shows "kids (foldl deleteExercise s xs) wid = []"
    and "refs_ok (foldl deleteExercise s xs)"
proof -
  have "getWorkoutExercises wid (foldl deleteExercise s xs) = []"
    by (auto simp: getWorkoutExercises_def deleteExercises_frame filter_empty_conv assms(2))
  then show "kids (foldl deleteExercise s xs) wid = []"
    by (simp add: kids_def)
  have sub: "set (sets (foldl deleteExercise s xs)) \<subseteq> set (sets s)"
    by (rule deleteExercises_frame(3))
  show "refs_ok (foldl deleteExercise s xs)"
    using assms(1) sub
    by (auto simp: refs_ok_def deleteExercises_frame(1,2,4))
qed

lemma upsertWorkout_found:
  assumes f: "first (\<lambda>r. hevyId r = hw_id w) (workouts s) = Some e" and inv: "workout_inv s"
  shows "fst (upsertWorkout g w s) = w_id e"
    and "workouts (snd (upsertWorkout g w s)) =
           map (\<lambda>r. if w_id r = w_id e then patchWorkout g w r else r) (workouts s)"
    and "kids (snd (upsertWorkout g w s)) (w_id e) = map (\<lambda>ex. length (ex_sets ex)) (hw_exercises w)"
    and "workout_inv (snd (upsertWorkout g w s))"
proof -
  define s1 where "s1 = s\<lparr>workouts := map (\<lambda>r. if w_id r = w_id e then patchWorkout g w r else r) (workouts s)\<rparr>"
  define xs where "xs = filter (\<lambda>x. workoutId x = w_id e) (exercises s1)"
  define s2 where "s2 = foldl deleteExercise s1 xs"
  define s3 where "s3 = foldl (insertExercise (w_id e)) s2 (hw_exercises w)"
  have u: "upsertWorkout g w s = (w_id e, s3)"
    by (simp add: upsertWorkout_def f Let_def s3_def s2_def xs_def s1_def)
  have e: "e \<in> set (workouts s)" using first_Some[OF f] by simp
  have r1: "refs_ok s1" using inv by (simp add: workout_inv_def refs_ok_def s1_def)
  have r2: "refs_ok s2" and k2: "kids s2 (w_id e) = []"
    unfolding s2_def using deleteExercises_kids[OF r1 xs_def] by simp_all
  have n2: "nextId s2 = nextId s" by (simp add: s2_def s1_def deleteExercises_frame)
  have w2: "workouts s2 = workouts s1" by (simp add: s2_def deleteExercises_frame)
  have lt: "w_id e < nextId s2" using inv e by (simp add: workout_inv_def n2)
  have k3: "kids s3 (w_id e) = kids s2 (w_id e) @ map (\<lambda>ex. length (ex_sets ex)) (hw_exercises w)"
    and r3: "refs_ok s3"
    unfolding s3_def using insertExercises_kids[OF r2 lt, of "hw_exercises w"] by simp_all
  have w3: "workouts s3 = workouts s1" by (simp add: s3_def insertExercises_workouts w2)
  have n3: "nextId s \<le> nextId s3"
    unfolding s3_def using insertExercises_nextId[of s2] by (simp add: n2)
  show "fst (upsertWorkout g w s) = w_id e" by (simp add: u)
  show "workouts (snd (upsertWorkout g w s)) =
           map (\<lambda>r. if w_id r = w_id e then patchWorkout g w r else r) (workouts s)"
    by (simp add: u w3 s1_def)
  show "kids (snd (upsertWorkout g w s)) (w_id e) = map (\<lambda>ex. length (ex_sets ex)) (hw_exercises w)"
    by (simp add: u k3 k2)
  have h: "map hevyId (workouts s3) = map hevyId (workouts s)"
    by (simp add: w3 s1_def o_def cong: map_cong)
  have h': "map w_id (workouts s3) = map w_id (workouts s)"
    by (simp add: w3 s1_def o_def cong: map_cong)
  have i: "\<forall>r\<in>set (workouts s3). w_id r < nextId s3"
    using inv n3 by (auto simp: w3 s1_def workout_inv_def)
  show "workout_inv (snd (upsertWorkout g w s))"
    using inv h h' i r3 by (simp add: workout_inv_def u)
qed

lemma upsertWorkout_new:
  assumes f: "first (\<lambda>r. hevyId r = hw_id w) (workouts s) = None" and inv: "workout_inv s"
  shows "fst (upsertWorkout g w s) = nextId s"
    and "workouts (snd (upsertWorkout g w s)) = workouts s @ [newWorkout g w (nextId s)]"
    and "kids (snd (upsertWorkout g w s)) (nextId s) = map (\<lambda>ex. length (ex_sets ex)) (hw_exercises w)"
    and "workout_inv (snd (upsertWorkout g w s))"
proof -
  define s1 where "s1 = s\<lparr>nextId := nextId s + 1, workouts := workouts s @ [newWorkout g w (nextId s)]\<rparr>"
  define s3 where "s3 = foldl (insertExercise (nextId s)) s1 (hw_exercises w)"
  have u: "upsertWorkout g w s = (nextId s, s3)"
    by (simp add: upsertWorkout_def f Let_def s3_def s1_def)
  have r1: "refs_ok s1" using inv by (auto simp: workout_inv_def refs_ok_def s1_def)
  have k1: "kids s1 (nextId s) = []"
    using inv by (auto simp: kids_def getWorkoutExercises_def workout_inv_def refs_ok_def filter_empty_conv s1_def)
  have lt: "nextId s < nextId s1" by (simp add: s1_def)
  have k3: "kids s3 (nextId s) = kids s1 (nextId s) @ map (\<lambda>ex. length (ex_sets ex)) (hw_exercises w)"
    and r3: "refs_ok s3"
    unfolding s3_def using insertExercises_kids[OF r1 lt, of "hw_exercises w"] by simp_all
  have w3: "workouts s3 = workouts s1" by (simp add: s3_def insertExercises_workouts)
  have n3: "nextId s1 \<le> nextId s3"
    unfolding s3_def by (rule insertExercises_nextId)
  show "fst (upsertWorkout g w s) = nextId s" by (simp add: u)
  show "workouts (snd (upsertWorkout g w s)) = workouts s @ [newWorkout g w (nextId s)]"
    by (simp add: u w3 s1_def)
  show "kids (snd (upsertWorkout g w s)) (nextId s) = map (\<lambda>ex. length (ex_sets ex)) (hw_exercises w)"
    by (simp add: u k3 k1)
  have "hw_id w \<notin> hevyId ` set (workouts s)"
    using f by (auto simp: first_None)
  then have h: "distinct (map hevyId (workouts s3))"
    using inv by (simp add: w3 s1_def workout_inv_def)
  have "nextId s \<notin> w_id ` set (workouts s)"
    using inv by (auto simp: workout_inv_def)
  then have h': "distinct (map w_id (workouts s3))"
    using inv by (simp add: w3 s1_def workout_inv_def)
  have i: "\<forall>r\<in>set (workouts s3). w_id r < nextId s3"
    using inv n3 by (auto simp: w3 s1_def workout_inv_def)
  show "workout_inv (snd (upsertWorkout g w s))"
    using h h' i r3 by (simp add: workout_inv_def u)
qed

lemma upsertWorkout_inv: "workout_inv s \<Longrightarrow> workout_inv (snd (upsertWorkout g w s))"
  by (cases "first (\<lambda>r. hevyId r = hw_id w) (workouts s)")
     (simp_all add: upsertWorkout_new upsertWorkout_found)


section \<open>Routines: inserting children\<close>

lemma insertRoutineSets_frame:
  "routines (foldl (insertRoutineSet eid wid) s sts) = routines s"
  "routineExercises (foldl (insertRoutineSet eid wid) s sts) = routineExercises s"
  "nextId (foldl (insertRoutineSet eid wid) s sts) = nextId s + length sts"
  by (induction sts arbitrary: s) (simp_all add: insertRoutineSet_def)


lemma insertRoutineExercise_frame:
  "routines (insertRoutineExercise wid fw dn s ex) = routines s"
  "nextId (insertRoutineExercise wid fw dn s ex) = nextId s + 1 + length (hre_sets ex)"
  by (simp_all add: insertRoutineExercise_def insertRoutineSets_frame)






lemma insertRoutineExercises_nextId:
  "nextId s \<le> nextId (foldl (insertRoutineExercise wid fw dn) s exs)"
proof (induction exs arbitrary: s)
  case Nil
  show ?case by simp
next
  case (Cons ex exs)
  have "nextId s \<le> nextId (insertRoutineExercise wid fw dn s ex)"
    by (simp add: insertRoutineExercise_frame)
  with Cons.IH[of "insertRoutineExercise wid fw dn s ex"] show ?case by simp
qed

section \<open>Routines: deleting children\<close>

lemma deleteRoutineSets_frame:
  "routines (foldl deleteRoutineSet s rs) = routines s"
  "routineExercises (foldl deleteRoutineSet s rs) = routineExercises s"
  "nextId (foldl deleteRoutineSet s rs) = nextId s"
  by (induction rs arbitrary: s) (auto simp: deleteRoutineSet_def)

lemma deleteRoutineSets_sets: "set (routineSets (foldl deleteRoutineSet s rs)) \<subseteq> set (routineSets s)"
proof (induction rs arbitrary: s)
  case Nil
  show ?case by simp
next
  case (Cons r rs)
  have "set (routineSets (deleteRoutineSet s r)) \<subseteq> set (routineSets s)"
    by (auto simp: deleteRoutineSet_def)
  with Cons.IH[of "deleteRoutineSet s r"] show ?case by auto
qed

lemma deleteRoutineExercise_frame:
  "routines (deleteRoutineExercise s ex) = routines s"
  "nextId (deleteRoutineExercise s ex) = nextId s"
  "set (routineSets (deleteRoutineExercise s ex)) \<subseteq> set (routineSets s)"
  "routineExercises (deleteRoutineExercise s ex) = filter (\<lambda>x. re_id x \<noteq> re_id ex) (routineExercises s)"
  using deleteRoutineSets_sets[of s] by (auto simp: deleteRoutineExercise_def Let_def deleteRoutineSets_frame)

lemma deleteRoutineExercises_frame:
  "routines (foldl deleteRoutineExercise s xs) = routines s"
  "nextId (foldl deleteRoutineExercise s xs) = nextId s"
  "set (routineSets (foldl deleteRoutineExercise s xs)) \<subseteq> set (routineSets s)"
  "routineExercises (foldl deleteRoutineExercise s xs) = filter (\<lambda>x. re_id x \<notin> re_id ` set xs) (routineExercises s)"
proof (induction xs arbitrary: s)
  case Nil
  {
    case 1 show ?case by simp
  next
    case 2 show ?case by simp
  next
    case 3 show ?case by simp
  next
    case 4 show ?case by simp
  }
next
  case (Cons x xs)
  {
    case 1 show ?case by (simp add: Cons.IH deleteRoutineExercise_frame)
  next
    case 2 show ?case by (simp add: Cons.IH deleteRoutineExercise_frame)
  next
    case 3 show ?case using Cons.IH(3)[of "deleteRoutineExercise s x"] deleteRoutineExercise_frame(3)[of s x] by auto
  next
    case 4 show ?case by (auto simp add: Cons.IH deleteRoutineExercise_frame intro: filter_cong)
  }
qed

section \<open>Upserting a routine\<close>


lemma patchRoutine_keys [simp]:
  "r_id (patchRoutine w s r) = r_id r"
  "r_hevyId (patchRoutine w s r) = hr_id w"
  by (simp_all add: patchRoutine_def split: prod.splits)



lemma newRoutine_keys [simp]:
  "r_id (newRoutine w s i) = i"
  "r_hevyId (newRoutine w s i) = hr_id w"
  by (simp_all add: newRoutine_def split: prod.splits)














section \<open>The rows of the child tables\<close>
















section \<open>Routines: the rows of the child tables\<close>













section \<open>Claim C1: upserting twice\<close>






section \<open>Claim C4: the frame of a deletion\<close>

lemma markWorkoutDeleted_None:
  "first (\<lambda>r. hevyId r = h) (workouts s) = None \<Longrightarrow> markWorkoutDeleted h s = s"
  by (simp add: markWorkoutDeleted_def)

lemma markWorkoutDeleted_Some:
  assumes "first (\<lambda>r. hevyId r = h) (workouts s) = Some e"
  shows "markWorkoutDeleted h s =
     s\<lparr>workouts := map (\<lambda>r. if w_id r = w_id e
                       then r\<lparr>isDeleted := True, syncedToNotion := False\<rparr> else r) (workouts s)\<rparr>"
  by (simp add: markWorkoutDeleted_def assms)

text \<open>
  C4. \<open>markWorkoutDeleted\<close> with no workout of that natural key returns the store
  unchanged. With a match, every table other than the workouts table is unchanged (in
  particular the exercise and set documents), the workouts table keeps its length, the
  matched document gets \<open>isDeleted = true\<close> and \<open>syncedToNotion = false\<close>, and at every
  position the document differs from the old one in at most these two fields; a
  document with another id is not changed at all.
\<close>

theorem markWorkoutDeleted_frame:
  "(first (\<lambda>r. hevyId r = h) (workouts s) = None \<longrightarrow> markWorkoutDeleted h s = s)
   \<and> (\<forall>e. first (\<lambda>r. hevyId r = h) (workouts s) = Some e \<longrightarrow>
         (markWorkoutDeleted h s)\<lparr>workouts := workouts s\<rparr> = s
       \<and> exercises (markWorkoutDeleted h s) = exercises s
       \<and> sets (markWorkoutDeleted h s) = sets s
       \<and> length (workouts (markWorkoutDeleted h s)) = length (workouts s)
       \<and> (\<exists>r'\<in>set (workouts (markWorkoutDeleted h s)).
             r' = e\<lparr>isDeleted := True, syncedToNotion := False\<rparr>)
       \<and> (\<forall>i < length (workouts s).
             (workouts (markWorkoutDeleted h s) ! i)
                \<lparr>isDeleted := isDeleted (workouts s ! i),
                 syncedToNotion := syncedToNotion (workouts s ! i)\<rparr> = workouts s ! i
           \<and> (w_id (workouts s ! i) = w_id e \<longrightarrow>
                 isDeleted (workouts (markWorkoutDeleted h s) ! i)
               \<and> \<not> syncedToNotion (workouts (markWorkoutDeleted h s) ! i))
           \<and> (w_id (workouts s ! i) \<noteq> w_id e \<longrightarrow>
                 workouts (markWorkoutDeleted h s) ! i = workouts s ! i)))"
proof (intro conjI impI allI)
  assume "first (\<lambda>r. hevyId r = h) (workouts s) = None"
  then show "markWorkoutDeleted h s = s" by (rule markWorkoutDeleted_None)
next
  fix e assume e: "first (\<lambda>r. hevyId r = h) (workouts s) = Some e"
  note m = markWorkoutDeleted_Some[OF e]
  show "(markWorkoutDeleted h s)\<lparr>workouts := workouts s\<rparr> = s" by (simp add: m)
  show "exercises (markWorkoutDeleted h s) = exercises s" by (simp add: m)
  show "sets (markWorkoutDeleted h s) = sets s" by (simp add: m)
  show "length (workouts (markWorkoutDeleted h s)) = length (workouts s)" by (simp add: m)
  have "e \<in> set (workouts s)" using first_Some[OF e] by simp
  then show "\<exists>r'\<in>set (workouts (markWorkoutDeleted h s)).
             r' = e\<lparr>isDeleted := True, syncedToNotion := False\<rparr>"
    by (force simp: m image_iff)
next
  fix e i assume e: "first (\<lambda>r. hevyId r = h) (workouts s) = Some e" and i: "i < length (workouts s)"
  note m = markWorkoutDeleted_Some[OF e]
  show "(workouts (markWorkoutDeleted h s) ! i)
                \<lparr>isDeleted := isDeleted (workouts s ! i),
                 syncedToNotion := syncedToNotion (workouts s ! i)\<rparr> = workouts s ! i"
    using i by (simp add: m)
  show "isDeleted (workouts (markWorkoutDeleted h s) ! i)" if "w_id (workouts s ! i) = w_id e"
    using i that by (simp add: m)
  show "\<not> syncedToNotion (workouts (markWorkoutDeleted h s) ! i)" if "w_id (workouts s ! i) = w_id e"
    using i that by (simp add: m)
  show "workouts (markWorkoutDeleted h s) ! i = workouts s ! i" if "w_id (workouts s ! i) \<noteq> w_id e"
    using i that by (simp add: m)
qed

lemma specStore_workouts: "workouts specStore = [newWorkout (\<lambda>t. 0) specWorkout 0]"
  by (simp add: specStore_def upsertWorkout_def first_def emptyStore_def insertExercises_workouts)

theorem markWorkoutDeleted_frame_witness:
  "first (\<lambda>r. hevyId r = ''none'') (workouts specStore) = None
   \<and> markWorkoutDeleted ''none'' specStore = specStore
   \<and> first (\<lambda>r. hevyId r = hw_id specWorkout) (workouts specStore)
        = Some (newWorkout (\<lambda>t. 0) specWorkout 0)
   \<and> (markWorkoutDeleted (hw_id specWorkout) specStore)\<lparr>workouts := workouts specStore\<rparr> = specStore
   \<and> exercises (markWorkoutDeleted (hw_id specWorkout) specStore) = exercises specStore
   \<and> sets (markWorkoutDeleted (hw_id specWorkout) specStore) = sets specStore
   \<and> isDeleted (workouts (markWorkoutDeleted (hw_id specWorkout) specStore) ! 0)
   \<and> \<not> syncedToNotion (workouts (markWorkoutDeleted (hw_id specWorkout) specStore) ! 0)"
proof -
  have n: "first (\<lambda>r. hevyId r = ''none'') (workouts specStore) = None"
    by (simp add: specStore_workouts first_def specWorkout_def)
  have f: "first (\<lambda>r. hevyId r = hw_id specWorkout) (workouts specStore)
        = Some (newWorkout (\<lambda>t. 0) specWorkout 0)"
    by (simp add: specStore_workouts first_def)
  have l: "0 < length (workouts specStore)"
    by (simp add: specStore_workouts)
  have i: "w_id (workouts specStore ! 0) = w_id (newWorkout (\<lambda>t. 0) specWorkout 0)"
    by (simp add: specStore_workouts)
  show ?thesis
    using n f l i
      markWorkoutDeleted_frame [of "''none''" specStore]
      markWorkoutDeleted_frame [of "hw_id specWorkout" specStore]
    by blast
qed

section \<open>Claim C3: tombstones\<close>

lemma insertRoutineSets_wframe:
  "workouts (foldl (insertRoutineSet eid rid) s sts) = workouts s"
  "exercises (foldl (insertRoutineSet eid rid) s sts) = exercises s"
  "sets (foldl (insertRoutineSet eid rid) s sts) = sets s"
  by (induction sts arbitrary: s) (simp_all add: insertRoutineSet_def)

lemma insertRoutineExercises_wframe:
  "workouts (foldl (insertRoutineExercise rid fw dn) s exs) = workouts s"
  "exercises (foldl (insertRoutineExercise rid fw dn) s exs) = exercises s"
  "sets (foldl (insertRoutineExercise rid fw dn) s exs) = sets s"
  by (induction exs arbitrary: s) (simp_all add: insertRoutineExercise_def insertRoutineSets_wframe)

lemma deleteRoutineSets_wframe:
  "workouts (foldl deleteRoutineSet s rs) = workouts s"
  "exercises (foldl deleteRoutineSet s rs) = exercises s"
  "sets (foldl deleteRoutineSet s rs) = sets s"
  by (induction rs arbitrary: s) (simp_all add: deleteRoutineSet_def)

lemma deleteRoutineExercises_wframe:
  "workouts (foldl deleteRoutineExercise s xs) = workouts s"
  "exercises (foldl deleteRoutineExercise s xs) = exercises s"
  "sets (foldl deleteRoutineExercise s xs) = sets s"
  by (induction xs arbitrary: s) (simp_all add: deleteRoutineExercise_def Let_def deleteRoutineSets_wframe)

lemma upsertRoutine_wframe:
  "workouts (snd (upsertRoutine w s)) = workouts s"
  "exercises (snd (upsertRoutine w s)) = exercises s"
  "sets (snd (upsertRoutine w s)) = sets s"
  by (cases "first (\<lambda>r. r_hevyId r = hr_id w) (routines s)";
      simp add: upsertRoutine_def Let_def insertRoutineExercises_wframe
        deleteRoutineExercises_wframe)+

lemma upsertRoutine_nextId: "nextId s \<le> nextId (snd (upsertRoutine w s))"
proof (cases "first (\<lambda>r. r_hevyId r = hr_id w) (routines s)")
  case None
  define s1 where "s1 = s\<lparr>nextId := nextId s + 1, routines := routines s @ [newRoutine w s (nextId s)]\<rparr>"
  have "nextId s1 \<le> nextId (foldl (insertRoutineExercise (nextId s) (snd (lookupFolder w s))
      (parseDayNumber (hr_title w))) s1 (hr_exercises w))"
    by (rule insertRoutineExercises_nextId)
  then show ?thesis
    by (simp add: upsertRoutine_def Let_def None s1_def)
next
  case (Some e)
  define s2 where "s2 = foldl deleteRoutineExercise
      (s\<lparr>routines := map (\<lambda>r. if r_id r = r_id e then patchRoutine w s r else r) (routines s)\<rparr>)
      (filter (\<lambda>x. routineId x = r_id e) (routineExercises s))"
  have "nextId s2 \<le> nextId (foldl (insertRoutineExercise (r_id e) (snd (lookupFolder w s))
      (parseDayNumber (hr_title w))) s2 (hr_exercises w))"
    by (rule insertRoutineExercises_nextId)
  moreover have "nextId s2 = nextId s"
    by (simp add: s2_def deleteRoutineExercises_frame)
  ultimately show ?thesis
    by (simp add: upsertRoutine_def Let_def Some s2_def)
qed

lemma upsertRoutineFolder_wframe:
  "workouts (snd (upsertRoutineFolder f s)) = workouts s"
  "exercises (snd (upsertRoutineFolder f s)) = exercises s"
  "sets (snd (upsertRoutineFolder f s)) = sets s"
  "nextId s \<le> nextId (snd (upsertRoutineFolder f s))"
  by (cases "first (\<lambda>r. f_hevyId r = hf_id f) (routineFolders s)";
      simp add: upsertRoutineFolder_def Let_def)+

lemma workout_same_id:
  assumes "workout_inv s" "e \<in> set (workouts s)" "r \<in> set (workouts s)" "w_id r = w_id e"
  shows "r = e"
proof -
  have "inj_on w_id (set (workouts s))"
    using assms(1) by (simp add: workout_inv_def distinct_map)
  then show ?thesis using assms(2-4) by (auto dest: inj_onD)
qed

lemma workout_same_key:
  assumes "workout_inv s" "e \<in> set (workouts s)" "r \<in> set (workouts s)" "hevyId r = hevyId e"
  shows "r = e"
proof -
  have "inj_on hevyId (set (workouts s))"
    using assms(1) by (simp add: workout_inv_def distinct_map)
  then show ?thesis using assms(2-4) by (auto dest: inj_onD)
qed

lemma patched_row:
  assumes inv: "workout_inv s" and r: "r \<in> set (workouts s)"
    and id: "\<And>x. w_id (f x) = w_id x"
    and r': "r' \<in> set (map f (workouts s))" "w_id r' = w_id r"
  shows "r' = f r"
proof -
  obtain x where x: "x \<in> set (workouts s)" "r' = f x"
    using r'(1) by auto
  have "w_id x = w_id r" using x(2) r'(2) id by simp
  then have "x = r" using workout_same_id[OF inv r x(1)] by simp
  then show ?thesis using x(2) by simp
qed

lemma patched_tombstone:
  assumes inv: "workout_inv s" and r: "r \<in> set (workouts s)"
    and id: "\<And>x. w_id (f x) = w_id x" and key: "hevyId (f r) = hevyId r"
  shows "(\<exists>r'\<in>set (map f (workouts s)). w_id r' = w_id r \<and> hevyId r' = hevyId r)
       \<and> (\<forall>r'\<in>set (map f (workouts s)). w_id r' = w_id r \<longrightarrow> isDeleted r' = isDeleted (f r))"
proof (intro conjI ballI impI)
  have "f r \<in> set (map f (workouts s))" using r by simp
  then show "\<exists>r'\<in>set (map f (workouts s)). w_id r' = w_id r \<and> hevyId r' = hevyId r"
    using id key by blast
next
  fix r' assume "r' \<in> set (map f (workouts s))" "w_id r' = w_id r"
  then have "r' = f r" by (rule patched_row[OF inv r id])
  then show "isDeleted r' = isDeleted (f r)" by simp
qed

lemma unchanged_tombstone:
  assumes inv: "workout_inv s" and r: "r \<in> set (workouts s)" and w: "workouts s' = workouts s"
  shows "(\<exists>r'\<in>set (workouts s'). w_id r' = w_id r \<and> hevyId r' = hevyId r)
       \<and> (\<forall>r'\<in>set (workouts s'). w_id r' = w_id r \<longrightarrow> isDeleted r' = isDeleted r)"
  using patched_tombstone[OF inv r, of "\<lambda>x. x"] by (simp add: w)

lemma patchWorkout_isDeleted: "\<not> isDeleted (patchWorkout g w r)"
  by (simp add: patchWorkout_def split: prod.splits)

lemma upsertWorkout_tombstone:
  assumes inv: "workout_inv s" and r: "r \<in> set (workouts s)" and del: "isDeleted r"
  shows "(\<exists>r'\<in>set (workouts (snd (upsertWorkout g w s))). w_id r' = w_id r \<and> hevyId r' = hevyId r)
       \<and> (\<forall>r'\<in>set (workouts (snd (upsertWorkout g w s))). w_id r' = w_id r \<longrightarrow>
             isDeleted r' = (hw_id w \<noteq> hevyId r))"
proof (cases "first (\<lambda>r. hevyId r = hw_id w) (workouts s)")
  case None
  have ne: "(hw_id w \<noteq> hevyId r) = isDeleted r" using None r del by (auto simp: first_None)
  have lt: "w_id r < nextId s" using inv r by (simp add: workout_inv_def)
  have ws: "workouts (snd (upsertWorkout g w s)) = workouts s @ [newWorkout g w (nextId s)]"
    by (rule upsertWorkout_new(2)[OF None inv])
  have u: "(\<exists>r'\<in>set (workouts s). w_id r' = w_id r \<and> hevyId r' = hevyId r)
       \<and> (\<forall>r'\<in>set (workouts s). w_id r' = w_id r \<longrightarrow> isDeleted r' = isDeleted r)"
    using unchanged_tombstone[OF inv r refl] .
  have n: "w_id (newWorkout g w (nextId s)) \<noteq> w_id r" using lt by simp
  show ?thesis
    unfolding ws ne using u n by auto
next
  case (Some e)
  have e: "e \<in> set (workouts s)" "hevyId e = hw_id w" using first_Some[OF Some] by simp_all
  define f where "f = (\<lambda>x. if w_id x = w_id e then patchWorkout g w x else x)"
  have ws: "workouts (snd (upsertWorkout g w s)) = map f (workouts s)"
    unfolding f_def by (rule upsertWorkout_found(2)[OF Some inv])
  have id: "w_id (f x) = w_id x" for x by (simp add: f_def)
  have key: "hevyId (f r) = hevyId r" by (simp add: f_def)
  have "(w_id r = w_id e) = (hevyId r = hw_id w)"
    using workout_same_id[OF inv e(1) r] e(2) workout_same_key[OF inv e(1) r] by auto
  then have q: "(hw_id w \<noteq> hevyId r) = isDeleted (f r)"
    using del by (auto simp: f_def patchWorkout_isDeleted)
  show ?thesis
    unfolding ws q by (rule patched_tombstone[OF inv r id key])
qed

lemma tombstone_step:
  assumes inv: "workout_inv s" and r: "r \<in> set (workouts s)" and del: "isDeleted r"
  shows "(\<exists>r'\<in>set (workouts (runMutation g m s)). w_id r' = w_id r \<and> hevyId r' = hevyId r)
       \<and> (\<forall>r'\<in>set (workouts (runMutation g m s)). w_id r' = w_id r \<longrightarrow>
             isDeleted r' = (\<forall>w. m = UpsertWorkout w \<longrightarrow> hw_id w \<noteq> hevyId r))"
proof (cases m)
  case (UpdateSyncState a)
  have ws: "workouts (runMutation g m s) = workouts s"
    by (simp add: UpdateSyncState updateSyncState_def split: list.splits)
  have q: "(\<forall>w. m = UpsertWorkout w \<longrightarrow> hw_id w \<noteq> hevyId r) = isDeleted r"
    using del by (simp add: UpdateSyncState)
  show ?thesis unfolding q by (rule unchanged_tombstone[OF inv r ws])
next
  case (UpsertWorkout w)
  have q: "(\<forall>w'. m = UpsertWorkout w' \<longrightarrow> hw_id w' \<noteq> hevyId r) = (hw_id w \<noteq> hevyId r)"
    by (simp add: UpsertWorkout)
  have ws: "runMutation g m s = snd (upsertWorkout g w s)"
    by (simp add: UpsertWorkout)
  show ?thesis unfolding q ws by (rule upsertWorkout_tombstone[OF inv r del])
next
  case (MarkWorkoutDeleted h)
  have q: "(\<forall>w. m = UpsertWorkout w \<longrightarrow> hw_id w \<noteq> hevyId r) = isDeleted r"
    using del by (simp add: MarkWorkoutDeleted)
  show ?thesis
  proof (cases "first (\<lambda>r. hevyId r = h) (workouts s)")
    case None
    have ws: "workouts (runMutation g m s) = workouts s"
      by (simp add: MarkWorkoutDeleted markWorkoutDeleted_def None)
    show ?thesis unfolding q by (rule unchanged_tombstone[OF inv r ws])
  next
    case (Some e)
    define f where "f = (\<lambda>x::workout_row. if w_id x = w_id e
          then x\<lparr>isDeleted := True, syncedToNotion := False\<rparr> else x)"
    have ws: "workouts (runMutation g m s) = map f (workouts s)"
      by (simp add: MarkWorkoutDeleted markWorkoutDeleted_def Some f_def)
    have id: "w_id (f x) = w_id x" for x by (simp add: f_def)
    have key: "hevyId (f r) = hevyId r" by (simp add: f_def)
    have d: "isDeleted r = isDeleted (f r)" using del by (simp add: f_def)
    show ?thesis
      unfolding ws q d by (rule patched_tombstone[OF inv r id key])
  qed
next
  case (MarkWorkoutSynced wid pid)
  have q: "(\<forall>w. m = UpsertWorkout w \<longrightarrow> hw_id w \<noteq> hevyId r) = isDeleted r"
    using del by (simp add: MarkWorkoutSynced)
  define f where "f = (\<lambda>x::workout_row. if w_id x = wid
          then x\<lparr>syncedToNotion := True, notionPageId := Some pid\<rparr> else x)"
  have ws: "workouts (runMutation g m s) = map f (workouts s)"
    by (simp add: MarkWorkoutSynced markWorkoutSynced_def f_def)
  have id: "w_id (f x) = w_id x" for x by (simp add: f_def)
  have key: "hevyId (f r) = hevyId r" by (simp add: f_def)
  have d: "isDeleted r = isDeleted (f r)" using del by (simp add: f_def)
  show ?thesis
    unfolding ws q d by (rule patched_tombstone[OF inv r id key])
next
  case (UpsertRoutineFolder f)
  have ws: "workouts (runMutation g m s) = workouts s"
    by (simp add: UpsertRoutineFolder upsertRoutineFolder_wframe)
  have q: "(\<forall>w. m = UpsertWorkout w \<longrightarrow> hw_id w \<noteq> hevyId r) = isDeleted r"
    using del by (simp add: UpsertRoutineFolder)
  show ?thesis unfolding q by (rule unchanged_tombstone[OF inv r ws])
next
  case (UpsertRoutine w)
  have ws: "workouts (runMutation g m s) = workouts s"
    by (simp add: UpsertRoutine upsertRoutine_wframe)
  have q: "(\<forall>w. m = UpsertWorkout w \<longrightarrow> hw_id w \<noteq> hevyId r) = isDeleted r"
    using del by (simp add: UpsertRoutine)
  show ?thesis unfolding q by (rule unchanged_tombstone[OF inv r ws])
next
  case (MarkRoutineFolderSynced a b)
  have ws: "workouts (runMutation g m s) = workouts s"
    by (simp add: MarkRoutineFolderSynced markRoutineFolderSynced_def)
  have q: "(\<forall>w. m = UpsertWorkout w \<longrightarrow> hw_id w \<noteq> hevyId r) = isDeleted r"
    using del by (simp add: MarkRoutineFolderSynced)
  show ?thesis unfolding q by (rule unchanged_tombstone[OF inv r ws])
next
  case (MarkRoutineSynced a b)
  have ws: "workouts (runMutation g m s) = workouts s"
    by (simp add: MarkRoutineSynced markRoutineSynced_def)
  have q: "(\<forall>w. m = UpsertWorkout w \<longrightarrow> hw_id w \<noteq> hevyId r) = isDeleted r"
    using del by (simp add: MarkRoutineSynced)
  show ?thesis unfolding q by (rule unchanged_tombstone[OF inv r ws])
next
  case (MarkRoutineExerciseSynced a b)
  have ws: "workouts (runMutation g m s) = workouts s"
    by (simp add: MarkRoutineExerciseSynced markRoutineExerciseSynced_def)
  have q: "(\<forall>w. m = UpsertWorkout w \<longrightarrow> hw_id w \<noteq> hevyId r) = isDeleted r"
    using del by (simp add: MarkRoutineExerciseSynced)
  show ?thesis unfolding q by (rule unchanged_tombstone[OF inv r ws])
qed


lemma workout_inv_frame:
  assumes "workout_inv s" "map w_id (workouts s') = map w_id (workouts s)"
    "map hevyId (workouts s') = map hevyId (workouts s)"
    "exercises s' = exercises s" "sets s' = sets s" "nextId s \<le> nextId s'"
  shows "workout_inv s'"
proof -
  have eq: "w_id ` set (workouts s') = w_id ` set (workouts s)"
    using arg_cong[OF assms(2), of set] by simp
  have "\<forall>r\<in>set (workouts s'). w_id r < nextId s'"
  proof
    fix r assume "r \<in> set (workouts s')"
    then have "w_id r \<in> w_id ` set (workouts s)" using eq by blast
    then obtain x where "x \<in> set (workouts s)" "w_id x = w_id r" by auto
    then show "w_id r < nextId s'" using assms(1,6) by (force simp: workout_inv_def)
  qed
  moreover have "refs_ok s'"
    using assms(1,4,5,6) by (fastforce simp: workout_inv_def refs_ok_def)
  ultimately show ?thesis
    using assms(1) by (simp add: workout_inv_def assms(2,3))
qed

lemma runMutation_workout_inv:
  assumes inv: "workout_inv s"
  shows "workout_inv (runMutation g m s)"
proof (cases m)
  case (UpdateSyncState a)
  show ?thesis
    by (rule workout_inv_frame[OF inv])
       (simp_all add: UpdateSyncState updateSyncState_def split: list.splits)
next
  case (UpsertWorkout w)
  show ?thesis using upsertWorkout_inv[OF inv] by (simp add: UpsertWorkout)
next
  case (MarkWorkoutDeleted h)
  show ?thesis
    by (rule workout_inv_frame[OF inv])
       (simp_all add: MarkWorkoutDeleted markWorkoutDeleted_def o_def split: option.splits cong: map_cong)
next
  case (MarkWorkoutSynced wid pid)
  show ?thesis
    by (rule workout_inv_frame[OF inv])
       (simp_all add: MarkWorkoutSynced markWorkoutSynced_def o_def cong: map_cong)
next
  case (UpsertRoutineFolder f)
  show ?thesis
    by (rule workout_inv_frame[OF inv])
       (simp_all add: UpsertRoutineFolder upsertRoutineFolder_wframe)
next
  case (UpsertRoutine w)
  show ?thesis
    by (rule workout_inv_frame[OF inv])
       (simp_all add: UpsertRoutine upsertRoutine_wframe upsertRoutine_nextId)
next
  case (MarkRoutineFolderSynced a b)
  show ?thesis
    by (rule workout_inv_frame[OF inv])
       (simp_all add: MarkRoutineFolderSynced markRoutineFolderSynced_def)
next
  case (MarkRoutineSynced a b)
  show ?thesis
    by (rule workout_inv_frame[OF inv])
       (simp_all add: MarkRoutineSynced markRoutineSynced_def)
next
  case (MarkRoutineExerciseSynced a b)
  show ?thesis
    by (rule workout_inv_frame[OF inv])
       (simp_all add: MarkRoutineExerciseSynced markRoutineExerciseSynced_def)
qed

lemma runMutation_retains:
  assumes inv: "workout_inv s" and r: "r \<in> set (workouts s)"
  shows "\<exists>r'\<in>set (workouts (runMutation g m s)). w_id r' = w_id r \<and> hevyId r' = hevyId r"
proof -
  have "map (\<lambda>x. (w_id x, hevyId x)) (workouts s)
      = take (length (workouts s)) (map (\<lambda>x. (w_id x, hevyId x)) (workouts (runMutation g m s)))"
  proof (cases m)
    case (UpdateSyncState a)
    show ?thesis by (simp add: UpdateSyncState updateSyncState_def split: list.splits)
  next
    case (UpsertWorkout w)
    show ?thesis
      by (cases "first (\<lambda>r. hevyId r = hw_id w) (workouts s)")
         (simp_all add: UpsertWorkout upsertWorkout_new(2)[OF _ inv] upsertWorkout_found(2)[OF _ inv]
            o_def cong: map_cong)
  next
    case (MarkWorkoutDeleted h)
    show ?thesis
      by (simp add: MarkWorkoutDeleted markWorkoutDeleted_def o_def split: option.splits cong: map_cong)
  next
    case (MarkWorkoutSynced wid pid)
    show ?thesis
      by (simp add: MarkWorkoutSynced markWorkoutSynced_def o_def cong: map_cong)
  next
    case (UpsertRoutineFolder f)
    show ?thesis by (simp add: UpsertRoutineFolder upsertRoutineFolder_wframe)
  next
    case (UpsertRoutine w)
    show ?thesis by (simp add: UpsertRoutine upsertRoutine_wframe)
  next
    case (MarkRoutineFolderSynced a b)
    show ?thesis by (simp add: MarkRoutineFolderSynced markRoutineFolderSynced_def)
  next
    case (MarkRoutineSynced a b)
    show ?thesis by (simp add: MarkRoutineSynced markRoutineSynced_def)
  next
    case (MarkRoutineExerciseSynced a b)
    show ?thesis by (simp add: MarkRoutineExerciseSynced markRoutineExerciseSynced_def)
  qed
  then have "set (map (\<lambda>x. (w_id x, hevyId x)) (workouts s))
      \<subseteq> set (map (\<lambda>x. (w_id x, hevyId x)) (workouts (runMutation g m s)))"
    by (metis set_take_subset)
  moreover have "(w_id r, hevyId r) \<in> set (map (\<lambda>x. (w_id x, hevyId x)) (workouts s))"
    using r by force
  ultimately have "(w_id r, hevyId r) \<in> set (map (\<lambda>x. (w_id x, hevyId x)) (workouts (runMutation g m s)))"
    by blast
  then show ?thesis by force
qed

lemma runMutations_workout_inv:
  "workout_inv s \<Longrightarrow> workout_inv (foldl (\<lambda>s m. runMutation g m s) s ms)"
  by (induction ms arbitrary: s) (simp_all add: runMutation_workout_inv)

lemma runMutations_retains:
  assumes "workout_inv s" "r \<in> set (workouts s)"
  shows "\<exists>r'\<in>set (workouts (foldl (\<lambda>s m. runMutation g m s) s ms)).
           w_id r' = w_id r \<and> hevyId r' = hevyId r"
  using assms
proof (induction ms arbitrary: s r)
  case Nil
  then show ?case by auto
next
  case (Cons m ms)
  obtain r1 where r1: "r1 \<in> set (workouts (runMutation g m s))" "w_id r1 = w_id r" "hevyId r1 = hevyId r"
    using runMutation_retains[OF Cons.prems, of g m] by blast
  from Cons.IH[OF runMutation_workout_inv[OF Cons.prems(1)] r1(1), of ] show ?case
    by (simp add: r1(2,3))
qed

lemma runMutations_deleted:
  assumes "workout_inv s" "r \<in> set (workouts s)" "isDeleted r"
    "\<forall>m\<in>set ms. \<forall>w. m = UpsertWorkout w \<longrightarrow> hw_id w \<noteq> hevyId r"
  shows "\<forall>r'\<in>set (workouts (foldl (\<lambda>s m. runMutation g m s) s ms)).
           w_id r' = w_id r \<longrightarrow> isDeleted r'"
  using assms
proof (induction ms arbitrary: s r)
  case Nil
  then show ?case using workout_same_id[OF Nil(1,2)] by auto
next
  case (Cons m ms)
  have ok: "\<forall>w. m = UpsertWorkout w \<longrightarrow> hw_id w \<noteq> hevyId r"
    using Cons.prems(4) by simp
  obtain r1 where r1: "r1 \<in> set (workouts (runMutation g m s))" "w_id r1 = w_id r" "hevyId r1 = hevyId r"
    using runMutation_retains[OF Cons.prems(1,2), of g m] by blast
  have d1: "isDeleted r1"
    using tombstone_step[OF Cons.prems(1,2,3), of g m] r1(1,2) ok by blast
  have rest: "\<forall>m\<in>set ms. \<forall>w. m = UpsertWorkout w \<longrightarrow> hw_id w \<noteq> hevyId r1"
    using Cons.prems(4) by (simp add: r1(3))
  from Cons.IH[OF runMutation_workout_inv[OF Cons.prems(1)] r1(1) d1 rest] show ?case
    by (simp add: r1(2))
qed

text \<open>
  C3 (as the code has it). In a well-formed store, a workout document with
  \<open>isDeleted = true\<close> is never removed: after any sequence of mutations a document with
  its id and its natural key is still there, whether or not the mirror has archived it.
  It stays deleted as long as no mutation of the sequence is an upsert of a payload with
  its natural key; such an upsert (an \<open>updated\<close> event for the same workout) sets
  \<open>isDeleted\<close> back to false.
\<close>

theorem tombstone_terminal:
  assumes "workout_inv s" and "r \<in> set (workouts s)" and "isDeleted r"
  shows "(\<exists>r'\<in>set (workouts (foldl (\<lambda>s m. runMutation g m s) s ms)).
            w_id r' = w_id r \<and> hevyId r' = hevyId r)
       \<and> ((\<forall>m\<in>set ms. \<forall>w. m = UpsertWorkout w \<longrightarrow> hw_id w \<noteq> hevyId r) \<longrightarrow>
            (\<forall>r'\<in>set (workouts (foldl (\<lambda>s m. runMutation g m s) s ms)).
               w_id r' = w_id r \<longrightarrow> isDeleted r'))
       \<and> (\<forall>w. hw_id w = hevyId r \<longrightarrow>
            (\<forall>r'\<in>set (workouts (runMutation g (UpsertWorkout w) s)).
               w_id r' = w_id r \<longrightarrow> \<not> isDeleted r'))"
proof (intro conjI impI allI)
  show "\<exists>r'\<in>set (workouts (foldl (\<lambda>s m. runMutation g m s) s ms)).
            w_id r' = w_id r \<and> hevyId r' = hevyId r"
    by (rule runMutations_retains[OF assms(1,2)])
next
  assume "\<forall>m\<in>set ms. \<forall>w. m = UpsertWorkout w \<longrightarrow> hw_id w \<noteq> hevyId r"
  then show "\<forall>r'\<in>set (workouts (foldl (\<lambda>s m. runMutation g m s) s ms)).
               w_id r' = w_id r \<longrightarrow> isDeleted r'"
    by (rule runMutations_deleted[OF assms])
next
  fix w :: HevyWorkout assume "hw_id w = hevyId r"
  then show "\<forall>r'\<in>set (workouts (runMutation g (UpsertWorkout w) s)).
               w_id r' = w_id r \<longrightarrow> \<not> isDeleted r'"
    using tombstone_step[OF assms, of g "UpsertWorkout w"] by auto
qed

lemma deletedStore_workouts:
  "workouts deletedStore =
     [(newWorkout (\<lambda>t. 0) specWorkout 0)\<lparr>isDeleted := True, syncedToNotion := False\<rparr>]"
  by (simp add: deletedStore_def markWorkoutDeleted_def specStore_workouts first_def)

lemma deletedStore_inv: "workout_inv deletedStore"
proof -
  have "workout_inv emptyStore"
    by (simp add: workout_inv_def refs_ok_def emptyStore_def)
  then have "workout_inv specStore"
    unfolding specStore_def by (rule upsertWorkout_inv)
  then have "workout_inv (runMutation (\<lambda>t. 0) (MarkWorkoutDeleted (hw_id specWorkout)) specStore)"
    by (rule runMutation_workout_inv)
  then show ?thesis by (simp add: deletedStore_def)
qed

theorem tombstone_terminal_witness:
  "workout_inv deletedStore
   \<and> (newWorkout (\<lambda>t. 0) specWorkout 0)\<lparr>isDeleted := True, syncedToNotion := False\<rparr>
        \<in> set (workouts deletedStore)
   \<and> isDeleted ((newWorkout (\<lambda>t. 0) specWorkout 0)\<lparr>isDeleted := True, syncedToNotion := False\<rparr>)
   \<and> (\<exists>r'\<in>set (workouts (foldl (\<lambda>s m. runMutation (\<lambda>t. 0) m s) deletedStore
                 [MarkWorkoutSynced 0 ''page-1'', MarkWorkoutDeleted ''b459cba5''])).
         w_id r' = 0 \<and> isDeleted r')"
proof -
  let ?r = "(newWorkout (\<lambda>t. 0) specWorkout 0)\<lparr>isDeleted := True, syncedToNotion := False\<rparr>"
  have h2: "?r \<in> set (workouts deletedStore)"
    by (simp add: deletedStore_workouts)
  have h3: "isDeleted ?r" by simp
  have h4: "\<forall>m\<in>set [MarkWorkoutSynced 0 ''page-1'', MarkWorkoutDeleted ''b459cba5''].
      \<forall>w. m = UpsertWorkout w \<longrightarrow> hw_id w \<noteq> hevyId ?r"
    by simp
  have i: "w_id ?r = 0" by simp
  show ?thesis
    using deletedStore_inv h2 h3 h4 i
      tombstone_terminal [OF deletedStore_inv h2 h3, of "\<lambda>t. 0"
        "[MarkWorkoutSynced 0 ''page-1'', MarkWorkoutDeleted ''b459cba5'']"]
    by metis
qed

text \<open>
  A deleted workout that was never mirrored becomes live again when an \<open>updated\<close>
  event for it is processed.
\<close>

theorem tombstone_counterexample:
  "map isDeleted (workouts deletedStore) = [True]
   \<and> map notionPageId (workouts deletedStore) = [None]
   \<and> map isDeleted
        (workouts (runMutation (\<lambda>t. 0) (UpsertWorkout specWorkout) deletedStore)) = [False]"
proof -
  have f: "first (\<lambda>r. hevyId r = hw_id specWorkout) (workouts deletedStore)
      = Some ((newWorkout (\<lambda>t. 0) specWorkout 0)\<lparr>isDeleted := True, syncedToNotion := False\<rparr>)"
    by (simp add: deletedStore_workouts first_def)
  show ?thesis
    by (simp add: upsertWorkout_found(2)[OF f deletedStore_inv] deletedStore_workouts
        patchWorkout_isDeleted)
       (simp add: newWorkout_def split: prod.splits)
qed

section \<open>Claim C7: the cursor of the incremental sync\<close>

lemma processEvents_counts:
  "\<exists>s'. foldl (processEvent env) (u, d, s) evs =
     (u + length (filter (\<lambda>e. ev_type e = ''updated'' \<and> ev_workout e \<noteq> None) evs),
      d + length (filter (\<lambda>e. ev_type e = ''deleted'' \<and> truthyStr (ev_id e)) evs), s')"
proof (induction evs arbitrary: u d s)
  case Nil
  show ?case by simp
next
  case (Cons e evs)
  show ?case
  proof (cases "ev_type e = ''updated'' \<and> ev_workout e \<noteq> None")
    case True
    then have "processEvent env (u, d, s) e
        = (u + 1, d, snd (upsertWorkout (dateGetTime env) (the (ev_workout e)) s))"
      by (simp add: processEvent_def)
    with True Cons.IH[of "u + 1" d] show ?thesis by auto
  next
    case False
    show ?thesis
    proof (cases "ev_type e = ''deleted'' \<and> truthyStr (ev_id e)")
      case True
      with False have "processEvent env (u, d, s) e = (u, d + 1, markWorkoutDeleted (the (ev_id e)) s)"
        by (auto simp: processEvent_def)
      with True False Cons.IH[of u "d + 1"] show ?thesis by auto
    next
      case F2: False
      with False have "processEvent env (u, d, s) e = (u, d, s)"
        by (auto simp: processEvent_def)
      with F2 False Cons.IH[of u d s] show ?thesis by auto
    qed
  qed
qed

lemma updateSyncState_cursor:
  assumes "now \<noteq> []"
  shows "map_option lastEventTimestamp
       (getSyncState (updateSyncState \<lparr>arg_lastSyncedAt = a, arg_lastEventTimestamp = Some now,
          arg_lastError = e, arg_syncInProgress = p\<rparr> s)) = Some (Some now)"
  using assms
  by (cases "syncState s") (simp_all add: updateSyncState_def getSyncState_def patchSyncState_def)

text \<open>
  C7. With an API key configured and every page of the event feed fetched,
  \<open>incrementalSync\<close> asks the feed for the events since the stored
  \<open>lastEventTimestamp\<close> (the epoch start \<open>1970-01-01T00:00:00Z\<close> when there is no
  sync state or no timestamp in it), returns the number of events and the numbers of
  \<open>updated\<close> and \<open>deleted\<close> events it processed, and stores as the new cursor the
  reading of the clock taken after the events were processed, whatever the events were.
\<close>

theorem incrementalSync_cursor:
  assumes "truthyStr (HEVY_API_KEY env)"
    and "fetchAllEvents env (sinceTimestamp s) = Inr evs"
    and "clock env 1 \<noteq> []"
  shows "fst (incrementalSync env s) =
           Inr \<lparr>eventsProcessed = length evs,
                updated = length (filter (\<lambda>e. ev_type e = ''updated'' \<and> ev_workout e \<noteq> None) evs),
                deleted = length (filter (\<lambda>e. ev_type e = ''deleted'' \<and> truthyStr (ev_id e)) evs)\<rparr>
       \<and> map_option lastEventTimestamp (getSyncState (snd (incrementalSync env s)))
           = Some (Some (clock env 1))
       \<and> sinceTimestamp s =
           (case getSyncState s of
              None \<Rightarrow> ''1970-01-01T00:00:00Z''
            | Some st \<Rightarrow>
                (case lastEventTimestamp st of
                   None \<Rightarrow> ''1970-01-01T00:00:00Z''
                 | Some c \<Rightarrow> if c = [] then ''1970-01-01T00:00:00Z'' else c))"
proof -
  obtain s1 where s1: "foldl (processEvent env) (0, 0, s) evs =
     (length (filter (\<lambda>e. ev_type e = ''updated'' \<and> ev_workout e \<noteq> None) evs),
      length (filter (\<lambda>e. ev_type e = ''deleted'' \<and> truthyStr (ev_id e)) evs), s1)"
    using processEvents_counts[of env 0 0 s evs] by auto
  have 1: "fst (incrementalSync env s) =
           Inr \<lparr>eventsProcessed = length evs,
                updated = length (filter (\<lambda>e. ev_type e = ''updated'' \<and> ev_workout e \<noteq> None) evs),
                deleted = length (filter (\<lambda>e. ev_type e = ''deleted'' \<and> truthyStr (ev_id e)) evs)\<rparr>"
    by (simp add: incrementalSync_def assms(1,2) s1)
  have "snd (incrementalSync env s) =
      updateSyncState \<lparr>arg_lastSyncedAt = Some (clock env 0),
          arg_lastEventTimestamp = Some (clock env 1),
          arg_lastError = None, arg_syncInProgress = None\<rparr> s1"
    by (simp add: incrementalSync_def assms(1,2) s1 del: One_nat_def)
  then have 2: "map_option lastEventTimestamp (getSyncState (snd (incrementalSync env s)))
           = Some (Some (clock env 1))"
    by (simp only: updateSyncState_cursor[OF assms(3)])
  have 3: "sinceTimestamp s =
           (case getSyncState s of
              None \<Rightarrow> ''1970-01-01T00:00:00Z''
            | Some st \<Rightarrow>
                (case lastEventTimestamp st of
                   None \<Rightarrow> ''1970-01-01T00:00:00Z''
                 | Some c \<Rightarrow> if c = [] then ''1970-01-01T00:00:00Z'' else c))"
    by (simp add: sinceTimestamp_def split: option.splits)
  show ?thesis using 1 2 3 by blast
qed

lemma specHevyEnv_fetch:
  "fetchAllEvents specHevyEnv since =
     Inr [\<lparr>ev_type = ''updated'', ev_workout = Some specWorkout, ev_id = None\<rparr>,
          \<lparr>ev_type = ''deleted'', ev_workout = None, ev_id = Some ''0c1f22''\<rparr>]"
  by (simp add: fetchAllEvents_def specHevyEnv_def)

theorem incrementalSync_cursor_witness:
  "truthyStr (HEVY_API_KEY specHevyEnv)
   \<and> clock specHevyEnv 1 \<noteq> []
   \<and> sinceTimestamp emptyStore = ''1970-01-01T00:00:00Z''
   \<and> fst (incrementalSync specHevyEnv emptyStore)
        = Inr \<lparr>eventsProcessed = 2, updated = 1, deleted = 1\<rparr>
   \<and> map_option lastEventTimestamp (getSyncState (snd (incrementalSync specHevyEnv emptyStore)))
        = Some (Some ''2024-06-01T12:00:00.000Z'')"
proof -
  have h1: "truthyStr (HEVY_API_KEY specHevyEnv)" by (simp add: specHevyEnv_def)
  have h3: "clock specHevyEnv 1 \<noteq> []" by (simp add: specHevyEnv_def)
  have c: "clock specHevyEnv 1 = ''2024-06-01T12:00:00.000Z''" by (simp add: specHevyEnv_def)
  have g: "getSyncState emptyStore = None" by (simp add: getSyncState_def emptyStore_def)
  have n: "length [\<lparr>ev_type = ''updated'', ev_workout = Some specWorkout, ev_id = None\<rparr>,
          \<lparr>ev_type = ''deleted'', ev_workout = None, ev_id = Some ''0c1f22''\<rparr>] = 2"
      "length (filter (\<lambda>e. ev_type e = ''updated'' \<and> ev_workout e \<noteq> None)
         [\<lparr>ev_type = ''updated'', ev_workout = Some specWorkout, ev_id = None\<rparr>,
          \<lparr>ev_type = ''deleted'', ev_workout = None, ev_id = Some ''0c1f22''\<rparr>]) = 1"
      "length (filter (\<lambda>e. ev_type e = ''deleted'' \<and> truthyStr (ev_id e))
         [\<lparr>ev_type = ''updated'', ev_workout = Some specWorkout, ev_id = None\<rparr>,
          \<lparr>ev_type = ''deleted'', ev_workout = None, ev_id = Some ''0c1f22''\<rparr>]) = 1"
    by simp_all
  have e: "(case getSyncState emptyStore of
              None \<Rightarrow> ''1970-01-01T00:00:00Z''
            | Some st \<Rightarrow>
                (case lastEventTimestamp st of
                   None \<Rightarrow> ''1970-01-01T00:00:00Z''
                 | Some c \<Rightarrow> if c = [] then ''1970-01-01T00:00:00Z'' else c))
        = ''1970-01-01T00:00:00Z''"
    by (simp add: g)
  show ?thesis
    using h1 h3 incrementalSync_cursor [OF h1 specHevyEnv_fetch h3, of emptyStore]
    unfolding n c e by blast
qed

section \<open>Claim C8: the HTTP entry points\<close>

text \<open>
  C8 (as the code has it). When a webhook secret is configured (a non-empty
  \<open>SYNC_WEBHOOK_SECRET\<close>), a request to \<open>POST /sync\<close> or \<open>POST /full-sync\<close> whose
  Authorization header is missing or differs from \<open>Bearer <secret>\<close> is answered with
  401 Unauthorized. A request that passes the check and whose work fails with a message
  is answered with status 500 and the body \<open>{error: message}\<close>; the work of \<open>/sync\<close> is
  the full pipeline when the body carries the three database ids and the incremental
  sync otherwise.
\<close>

theorem http_status:
  "(truthyStr expectedSecret \<and> authorization request \<noteq> Some (''Bearer '' @ the expectedSecret) \<longrightarrow>
       syncHandler expectedSecret acts request = \<lparr>status = 401, content = Text ''Unauthorized''\<rparr>
     \<and> fullSyncHandler expectedSecret acts request = \<lparr>status = 401, content = Text ''Unauthorized''\<rparr>)
   \<and> (\<not> (truthyStr expectedSecret \<and> authorization request \<noteq> Some (''Bearer '' @ the expectedSecret)) \<longrightarrow>
       (\<forall>message. syncTry acts request = Inl message \<longrightarrow>
          syncHandler expectedSecret acts request = \<lparr>status = 500, content = JsonError message\<rparr>)
     \<and> (\<forall>message. runFullSync acts = Inl message \<longrightarrow>
          fullSyncHandler expectedSecret acts request = \<lparr>status = 500, content = JsonError message\<rparr>)
     \<and> (\<forall>a b c. body request = JsonObject (Some a) (Some b) (Some c) \<and> a \<noteq> [] \<and> b \<noteq> [] \<and> c \<noteq> [] \<longrightarrow>
          syncTry acts request = runFullPipeline acts a b c)
     \<and> (body request = Unparsable \<longrightarrow> syncTry acts request = runIncrementalSync acts)
     \<and> (\<forall>a b c. body request = JsonObject a b c
            \<and> \<not> (truthyStr a \<and> truthyStr b \<and> truthyStr c) \<longrightarrow>
          syncTry acts request = runIncrementalSync acts))"
  by (auto simp: syncHandler_def fullSyncHandler_def unauthorized_def respond_def syncTry_def)

theorem http_status_witness:
  "truthyStr (Some ''s3cret'')
   \<and> authorization bareRequest \<noteq> Some (''Bearer '' @ the (Some ''s3cret''))
   \<and> syncHandler (Some ''s3cret'') okActions bareRequest
        = \<lparr>status = 401, content = Text ''Unauthorized''\<rparr>
   \<and> fullSyncHandler (Some ''s3cret'') okActions bareRequest
        = \<lparr>status = 401, content = Text ''Unauthorized''\<rparr>
   \<and> \<not> (truthyStr (Some ''s3cret'')
          \<and> authorization (bareRequest\<lparr>authorization := Some ''Bearer s3cret''\<rparr>)
              \<noteq> Some (''Bearer '' @ the (Some ''s3cret'')))
   \<and> syncTry failingActions (bareRequest\<lparr>authorization := Some ''Bearer s3cret''\<rparr>)
        = Inl ''Rate limited by Hevy API''
   \<and> syncHandler (Some ''s3cret'') failingActions (bareRequest\<lparr>authorization := Some ''Bearer s3cret''\<rparr>)
        = \<lparr>status = 500, content = JsonError ''Rate limited by Hevy API''\<rparr>
   \<and> fullSyncHandler (Some ''s3cret'') failingActions (bareRequest\<lparr>authorization := Some ''Bearer s3cret''\<rparr>)
        = \<lparr>status = 500, content = JsonError ''Hevy API error: 500''\<rparr>"
proof -
  have h1: "truthyStr (Some ''s3cret'')
      \<and> authorization bareRequest \<noteq> Some (''Bearer '' @ the (Some ''s3cret''))"
    by (simp add: bareRequest_def)
  have h2: "\<not> (truthyStr (Some ''s3cret'')
          \<and> authorization (bareRequest\<lparr>authorization := Some ''Bearer s3cret''\<rparr>)
              \<noteq> Some (''Bearer '' @ the (Some ''s3cret'')))"
    by simp
  have h3: "syncTry failingActions (bareRequest\<lparr>authorization := Some ''Bearer s3cret''\<rparr>)
        = Inl ''Rate limited by Hevy API''"
    by (simp add: syncTry_def bareRequest_def failingActions_def)
  have h4: "runFullSync failingActions = Inl ''Hevy API error: 500''"
    by (simp add: failingActions_def)
  show ?thesis
    using h1 h2 h3 h4
      http_status [of "Some ''s3cret''" bareRequest okActions]
      http_status [of "Some ''s3cret''" "bareRequest\<lparr>authorization := Some ''Bearer s3cret''\<rparr>"
        failingActions]
    by blast
qed

text \<open>
  Without a configured secret (or with an empty one) no request is rejected: a request
  without an Authorization header is served.
\<close>

theorem http_status_counterexample:
  "authorization bareRequest = None
   \<and> syncHandler None okActions bareRequest = \<lparr>status = 200, content = JsonResult ()\<rparr>
   \<and> fullSyncHandler None okActions bareRequest = \<lparr>status = 200, content = JsonResult ()\<rparr>
   \<and> status (syncHandler None okActions bareRequest) \<noteq> 401
   \<and> status (fullSyncHandler (Some []) okActions bareRequest) \<noteq> 401"
  by (simp add: syncHandler_def fullSyncHandler_def unauthorized_def respond_def syncTry_def
      bareRequest_def okActions_def)

section \<open>Claim C9: the batch runner\<close>

lemma fulfilled_append: "fulfilled (xs @ ys) = fulfilled xs @ fulfilled ys"
  by (induction xs rule: fulfilled.induct) simp_all

lemma rejected_append: "rejected (xs @ ys) = rejected xs + rejected ys"
  by (induction xs rule: rejected.induct) simp_all

lemma fulfilled_rejected: "length (fulfilled os) + rejected os = length os"
  by (induction os rule: fulfilled.induct) simp_all

lemma collect_outcomes:
  "collect os (rs, e) = (rs @ fulfilled os, e + rejected os)"
  by (induction os "(rs, e)" arbitrary: rs e rule: collect.induct) simp_all

lemma startBatch_slice:
  assumes "i \<le> length items"
  shows "startBatch p i (slice items i (i + n))
       = map (\<lambda>k. p k (items ! k)) [i ..< min (i + n) (length items)]"
proof -
  have l: "length (slice items i (i + n)) = min (i + n) (length items) - i"
    using assms by (auto simp: slice_def)
  have "map (\<lambda>k. p (i + k) (slice items i (i + n) ! k)) [0 ..< min (i + n) (length items) - i]
      = map (\<lambda>k. p (i + k) (items ! (i + k))) [0 ..< min (i + n) (length items) - i]"
    by (rule map_cong) (auto simp: slice_def)
  also have "\<dots> = map (\<lambda>k. p k (items ! k)) (map (\<lambda>k. i + k) [0 ..< min (i + n) (length items) - i])"
    by (simp add: comp_def)
  also have "map (\<lambda>k. i + k) [0 ..< min (i + n) (length items) - i] = [i ..< min (i + n) (length items)]"
    using assms map_add_upt[of i "min (i + n) (length items) - i"]
    by (simp add: add.commute min_def)
  finally show ?thesis by (simp add: startBatch_def l)
qed

lemma batchLoop_positive:
  assumes "0 < n"
  shows "batchLoop p n items i (rs, e) trace =
     Some ((rs @ fulfilled (map (\<lambda>k. p k (items ! k)) [i ..< length items]),
            e + rejected (map (\<lambda>k. p k (items ! k)) [i ..< length items])),
           trace @ groupLog (batches n (drop i items)))"
  using assms
proof (induction "length items - i" arbitrary: i rs e trace rule: less_induct)
  case less
  show ?case
  proof (cases "i < length items")
    case True
    define m where "m = min (i + n) (length items)"
    have d: "drop i items \<noteq> []" using True by simp
    have lt: "length items - (i + n) < length items - i" using True less.prems by arith
    have sl: "slice items i (i + n) = take n (drop i items)" by (simp add: slice_def)
    have b: "batches n (drop i items) = take n (drop i items) # batches n (drop (i + n) items)"
      using d less.prems by (subst batches.simps) (simp add: add.commute)
    have sb: "startBatch p i (slice items i (i + n)) = map (\<lambda>k. p k (items ! k)) [i ..< m]"
      unfolding m_def using True by (intro startBatch_slice) simp
    have up: "[i ..< length items] = [i ..< m] @ [m ..< length items]"
      using upt_add_eq_append[of i m "length items - m"] True
      by (simp add: m_def min_def)
    have rest: "[i + n ..< length items] = [m ..< length items]"
      unfolding m_def by (auto simp: min_def)
    show ?thesis
      apply (subst batchLoop.simps)
      apply (simp only: True if_True sb collect_outcomes less.hyps[OF lt less.prems] rest)
      apply (simp add: up fulfilled_append rejected_append b groupLog_def sl)
      done
  next
    case False
    then have "batches n (drop i items) = []"
      by (subst batches.simps) simp
    with False show ?thesis
      by (subst batchLoop.simps) (simp add: groupLog_def)
  qed
qed

lemma concat_batches: "0 < n \<Longrightarrow> concat (batches n items) = items"
proof (induction n items rule: batches.induct)
  case (1 n items)
  show ?case
  proof (cases "items = []")
    case True
    then show ?thesis by (subst batches.simps) simp
  next
    case False
    with 1 show ?thesis by (subst batches.simps) simp
  qed
qed

lemma batches_sizes: "b \<in> set (batches n items) \<Longrightarrow> b \<noteq> [] \<and> length b \<le> n"
proof (induction n items rule: batches.induct)
  case (1 n items)
  show ?case
  proof (cases "n = 0 \<or> items = []")
    case True
    with 1(2) show ?thesis by (subst (asm) batches.simps) auto
  next
    case False
    from 1(2) have "b = take n items \<or> b \<in> set (batches n (drop n items))"
      using False by (subst (asm) batches.simps) auto
    then show ?thesis
      using 1(1) False by auto
  qed
qed

text \<open>Every group but the last is full.\<close>

lemma batches_full:
  "Suc k < length (batches n items) \<Longrightarrow> length (batches n items ! k) = n"
proof (induction n items arbitrary: k rule: batches.induct)
  case (1 n items)
  show ?case
  proof (cases "n = 0 \<or> items = []")
    case True
    with 1(2) show ?thesis by (subst (asm) batches.simps) auto
  next
    case False
    have b: "batches n items = take n items # batches n (drop n items)"
      using False by (subst batches.simps) simp
    show ?thesis
    proof (cases k)
      case 0
      have "batches n (drop n items) \<noteq> []" using 1(2) unfolding b by auto
      then have "drop n items \<noteq> []" by (subst (asm) batches.simps) (auto split: if_splits)
      then have "n \<le> length items" by simp
      then show ?thesis unfolding b 0 by simp
    next
      case (Suc j)
      have "Suc j < length (batches n (drop n items))" using 1(2) unfolding b Suc by simp
      from 1(1)[OF False this] show ?thesis unfolding b Suc by simp
    qed
  qed
qed

lemma pendingAfter_calls: "pendingAfter c (map Call g) = c + length g"
  by (induction g arbitrary: c) simp_all

lemma pendingAfter_append: "pendingAfter c (t @ u) = pendingAfter (pendingAfter c t) u"
  by (induction c t rule: pendingAfter.induct) simp_all

lemma inFlight_group: "inFlight (map Call g @ [AwaitAll (length g)]) = 0"
  by (simp add: inFlight_def pendingAfter_append pendingAfter_calls)

lemma inFlight_after_group:
  "inFlight ((map Call g @ [AwaitAll (length g)]) @ u) = inFlight u"
  using inFlight_group[of g]
  by (simp only: inFlight_def pendingAfter_append[of 0 "map Call g @ [AwaitAll (length g)]" u])

lemma inFlight_groupLog:
  assumes "\<forall>g\<in>set gs. length g \<le> n"
  shows "inFlight (take k (groupLog gs)) \<le> n"
  using assms
proof (induction gs arbitrary: k)
  case Nil
  show ?case by (simp add: groupLog_def inFlight_def)
next
  case (Cons g gs)
  define A where "A = map Call g @ [AwaitAll (length g)]"
  have lA: "length A = Suc (length g)" by (simp add: A_def)
  have gl: "groupLog (g # gs) = A @ groupLog gs"
    by (simp add: groupLog_def A_def)
  have len: "length g \<le> n" using Cons.prems by simp
  consider "k \<le> length g" | "k = Suc (length g)" | "Suc (length g) < k" by linarith
  then show ?case
  proof cases
    case 1
    then have "take k (groupLog (g # gs)) = map Call (take k g)"
      unfolding gl A_def by (simp add: take_map)
    then have "inFlight (take k (groupLog (g # gs))) = length (take k g)"
      by (simp add: inFlight_def pendingAfter_calls)
    then show ?thesis using len 1 by simp
  next
    case 2
    then have "take k (groupLog (g # gs)) = map Call g @ [AwaitAll (length g)]"
      unfolding gl by (simp add: lA) (simp add: A_def)
    then show ?thesis by (simp add: inFlight_group)
  next
    case 3
    then have "take k (groupLog (g # gs)) = A @ take (k - Suc (length g)) (groupLog gs)"
      unfolding gl by (simp add: lA)
    then have "inFlight (take k (groupLog (g # gs)))
        = inFlight (take (k - Suc (length g)) (groupLog gs))"
      unfolding A_def by (simp only: inFlight_after_group)
    then show ?thesis using Cons.IH[of "k - Suc (length g)"] Cons.prems by simp
  qed
qed

lemma inFlight_groupLog_all: "inFlight (groupLog gs) = 0"
proof (induction gs)
  case Nil
  show ?case by (simp add: groupLog_def inFlight_def)
next
  case (Cons g gs)
  have "groupLog (g # gs) = (map Call g @ [AwaitAll (length g)]) @ groupLog gs"
    by (simp add: groupLog_def)
  then show ?case using Cons by (simp only: inFlight_after_group)
qed

lemma calledItems_calls: "calledItems (map Call g @ trace) = g @ calledItems trace"
  by (induction g) simp_all

lemma calledItems_groupLog: "calledItems (groupLog gs) = concat gs"
proof (induction gs)
  case Nil
  show ?case by (simp add: groupLog_def)
next
  case (Cons g gs)
  have "groupLog (g # gs) = map Call g @ (AwaitAll (length g) # groupLog gs)"
    by (simp add: groupLog_def)
  then show ?case using Cons by (simp add: calledItems_calls)
qed

text \<open>
  C9. For every item list, every processor and every bound \<open>n \<ge> 1\<close> (the call sites
  pass 5, 10, 15 and 20) the batch runner returns. Its trace is that of the groups
  \<open>batches n items\<close>: the processor is called on the items of a group in their order,
  then the group is awaited, and only then is the next group started. The processor is
  called once on each item, in input order; at no point of the trace are more than \<open>n\<close>
  promises in flight, and none is in flight at the end. The groups are consecutive
  slices of the items, none empty, none longer than \<open>n\<close> and all but the last of
  length \<open>n\<close>. The results are the values of the fulfilled promises in the order of
  the items, the error count is the number of rejected ones, and the two together are as
  many as the items.
\<close>

theorem batchProcess_groups:
  assumes "0 < n"
  shows "\<exists>trace.
         batchProcess items p n =
           Some ((fulfilled (settled p items), rejected (settled p items)), trace)
       \<and> trace = groupLog (batches n items)
       \<and> calledItems trace = items
       \<and> (\<forall>k. inFlight (take k trace) \<le> n)
       \<and> inFlight trace = 0
       \<and> concat (batches n items) = items
       \<and> (\<forall>g\<in>set (batches n items). g \<noteq> [] \<and> length g \<le> n)
       \<and> (\<forall>k. Suc k < length (batches n items) \<longrightarrow> length (batches n items ! k) = n)
       \<and> length (fulfilled (settled p items)) + rejected (settled p items) = length items"
proof -
  define trace where "trace = groupLog (batches n items)"
  have 1: "batchProcess items p n =
           Some ((fulfilled (settled p items), rejected (settled p items)), trace)"
    using batchLoop_positive[OF assms, of p items 0 "[]" 0 "[]"]
    by (simp add: batchProcess_def settled_def trace_def)
  have 2: "concat (batches n items) = items"
    by (rule concat_batches[OF assms])
  have 3: "\<forall>g\<in>set (batches n items). g \<noteq> [] \<and> length g \<le> n"
    using batches_sizes by blast
  have 4: "\<forall>k. Suc k < length (batches n items) \<longrightarrow> length (batches n items ! k) = n"
    using batches_full by blast
  have 5: "length (fulfilled (settled p items)) + rejected (settled p items) = length items"
    by (simp add: fulfilled_rejected settled_def)
  have 6: "\<forall>k. inFlight (take k trace) \<le> n"
    unfolding trace_def using inFlight_groupLog[of "batches n items" n] batches_sizes by blast
  have 7: "inFlight trace = 0"
    unfolding trace_def by (rule inFlight_groupLog_all)
  have 8: "calledItems trace = items"
    unfolding trace_def calledItems_groupLog by (rule 2)
  show ?thesis
    using 1 trace_def 8 6 7 2 3 4 5 by blast
qed

theorem batchProcess_groups_witness:
  "(0::nat) < 2
   \<and> batchProcess [1, 2, 3, 4, 5] oddProcessor 2
       = Some (([10, 30, 50], 2),
               [Call 1, Call 2, AwaitAll 2, Call 3, Call 4, AwaitAll 2, Call 5, AwaitAll 1])"
proof -
  have h: "(0::nat) < 2" by simp
  have b: "batches 2 [1, 2, 3, 4, 5 :: nat] = [[1, 2], [3, 4], [5]]"
    by (simp add: batches.simps)
  have u: "[0 ..< 5] = [0, 1, 2, 3, 4 :: nat]" by (simp add: upt_rec)
  have o: "settled oddProcessor [1, 2, 3, 4, 5]
      = [Inr 10, Inl ''even item'', Inr 30, Inl ''even item'', Inr 50]"
    by (simp add: settled_def oddProcessor_def u)
  have v: "fulfilled [Inr 10, Inl ''even item'', Inr 30, Inl ''even item'', Inr (50::nat)]
        = [10, 30, 50]"
      "rejected [Inr 10, Inl ''even item'', Inr 30, Inl ''even item'', Inr (50::nat)] = 2"
    by simp_all
  have r: "batchProcess [1, 2, 3, 4, 5] oddProcessor 2 =
      Some ((fulfilled (settled oddProcessor [1, 2, 3, 4, 5]),
             rejected (settled oddProcessor [1, 2, 3, 4, 5])),
            groupLog (batches 2 [1, 2, 3, 4, 5]))"
    using batchProcess_groups [OF h, of "[1, 2, 3, 4, 5]" oddProcessor] by auto
  show ?thesis
    using h r unfolding o v b by (simp add: groupLog_def)
qed

section \<open>Requests to the mirror\<close>

lemma notionRequest_no_token:
  "\<not> truthyStr (NOTION_TOKEN env) \<Longrightarrow>
     notionRequest env req w = (Inl ''NOTION_TOKEN not configured'', w)"
  by (simp add: notionRequest_def)

lemma notionRequest_token:
  assumes "truthyStr (NOTION_TOKEN env)" "notionRequest env req w = (res, w')"
  shows "w' = w\<lparr>sent := sent w @ [req]\<rparr>"
    and "res = (case notionApi env (length (sent w)) req of
                  HttpError code text \<Rightarrow> Inl (''Notion API error: '' @ code @ '' - '' @ text)
                | Ok results page \<Rightarrow> Inr (results, page))"
  using assms by (auto simp: notionRequest_def split: reply.splits)

lemma notionRequest_world:
  assumes "notionRequest env req w = (res, w')"
  shows "db w' = db w" and "sent w' = sent w \<or> sent w' = sent w @ [req]"
  using assms by (auto simp: notionRequest_def split: reply.splits if_splits)

lemma notionRequest_reliable:
  assumes "reliable env"
  shows "\<exists>results page. notionRequest env req w = (Inr (results, page), w\<lparr>sent := sent w @ [req]\<rparr>)
     \<and> notionApi env (length (sent w)) req = Ok results page"
proof (cases "notionApi env (length (sent w)) req")
  case (HttpError c t)
  have "\<not> isFailure (notionApi env (length (sent w)) req)"
    using assms by (simp add: reliable_def)
  with HttpError show ?thesis by simp
next
  case (Ok rs p)
  with assms show ?thesis by (simp add: notionRequest_def reliable_def)
qed

lemma grows_refl: "grows K w w"
  by (simp add: grows_def)

lemma grows_trans: "grows K w w1 \<Longrightarrow> grows K w1 w2 \<Longrightarrow> grows K w w2"
  by (auto simp: grows_def)

lemma grows_request:
  assumes "notionRequest env req w = (res, w')" "K req"
  shows "grows K w w'"
  using notionRequest_world(2)[OF assms(1)] assms(2) by (auto simp: grows_def)

lemma grows_db: "grows K w w' \<Longrightarrow> grows K w (w'\<lparr>db := s\<rparr>)"
  by (simp add: grows_def)

lemma forEachE_invariant:
  assumes step: "\<And>x w res w'. f x w = (res, w') \<Longrightarrow> db w' = db w \<and> grows K w w'"
    and run: "forEachE f xs w = (res, w')"
  shows "db w' = db w \<and> grows K w w'"
  using run
proof (induction xs arbitrary: w)
  case Nil
  then show ?case by (simp add: grows_refl)
next
  case (Cons x xs)
  obtain r1 w1 where f: "f x w = (r1, w1)" by (cases "f x w")
  note s = step[OF f]
  show ?case
  proof (cases r1)
    case (Inl e)
    with Cons.prems f s show ?thesis by simp
  next
    case (Inr u)
    with Cons.prems f have "forEachE f xs w1 = (res, w')" by simp
    from Cons.IH[OF this] s show ?thesis by (auto intro: grows_trans)
  qed
qed

lemma createSetPage_invariant:
  assumes "createSetPage env dbs pid st w = (res, w')"
  shows "db w' = db w \<and> grows isChildCreate w w'"
proof -
  obtain r1 w1 where n: "notionRequest env (CreatePage (setsDbId dbs) (SetProps st pid)) w = (r1, w1)"
    by (cases "notionRequest env (CreatePage (setsDbId dbs) (SetProps st pid)) w")
  have "w' = w1" using assms n by (cases r1) (simp_all add: createSetPage_def)
  then show ?thesis
    using notionRequest_world(1)[OF n] grows_request[OF n, of isChildCreate] by simp
qed

lemma syncExercise_invariant:
  assumes "syncExercise env dbs pid ex w = (res, w')"
  shows "db w' = db w \<and> grows isChildCreate w w'"
proof -
  define rows where "rows = getExerciseSets (e_id ex) (db w)"
  define req where "req = CreatePage (exercisesDbId dbs)
                (ExerciseProps ex pid (length rows) (round1 (exerciseVolume rows)))"
  obtain r1 w1 where n: "notionRequest env req w = (r1, w1)"
    by (cases "notionRequest env req w")
  have k: "isChildCreate req" by (simp add: req_def)
  note g1 = notionRequest_world(1)[OF n] grows_request[of env req w r1 w1 isChildCreate, OF n k]
  show ?thesis
  proof (cases r1)
    case (Inl e)
    with assms n have "w' = w1"
      by (simp add: syncExercise_def Let_def rows_def[symmetric] req_def[symmetric])
    with g1 show ?thesis by simp
  next
    case (Inr page)
    with assms n have "forEachE (createSetPage env dbs (snd page)) rows w1 = (res, w')"
      by (simp add: syncExercise_def Let_def rows_def[symmetric] req_def[symmetric])
    from forEachE_invariant[of "createSetPage env dbs (snd page)" isChildCreate, OF _ this]
      createSetPage_invariant g1
    show ?thesis by (auto intro: grows_trans)
  qed
qed

lemma syncExercises_invariant:
  assumes "forEachE (syncExercise env dbs pid) exs w = (res, w')"
  shows "db w' = db w \<and> grows isChildCreate w w'"
  using forEachE_invariant[of "syncExercise env dbs pid" isChildCreate, OF _ assms]
    syncExercise_invariant by blast

section \<open>Pushing one workout\<close>

lemma syncWorkout_no_token:
  assumes "\<not> truthyStr (NOTION_TOKEN env)"
  shows "syncWorkout env dbs wk w = (Inl ''NOTION_TOKEN not configured'', w)"
  by (simp add: syncWorkout_def findWorkoutPage_def putWorkoutPage_def
      notionRequest_no_token[OF assms])

lemma putWorkoutPage_cases:
  assumes "putWorkoutPage env dbs wk found w = (res, w')"
  shows "db w' = db w"
    and "truthyStr (NOTION_TOKEN env) \<Longrightarrow>
           sent w' = sent w @ [if truthyStr found then UpdatePage (the found) (WorkoutProps wk)
                               else CreatePage (workoutsDbId dbs) (WorkoutProps wk)]"
    and "\<And>pid. res = Inr pid \<Longrightarrow> truthyStr found \<Longrightarrow> pid = the found"
    and "\<And>pid. res = Inr pid \<Longrightarrow> \<not> truthyStr found \<Longrightarrow>
           (\<exists>rs. notionApi env (length (sent w)) (CreatePage (workoutsDbId dbs) (WorkoutProps wk)) = Ok rs pid)"
    and "\<exists>rest. sent w' = sent w @ rest"
proof -
  define req where "req = (if truthyStr found then UpdatePage (the found) (WorkoutProps wk)
                               else CreatePage (workoutsDbId dbs) (WorkoutProps wk))"
  obtain r1 w1 where n: "notionRequest env req w = (r1, w1)"
    by (cases "notionRequest env req w")
  have w': "w' = w1"
    using assms n by (cases r1; cases "truthyStr found") (simp_all add: putWorkoutPage_def req_def)
  show "db w' = db w" using notionRequest_world(1)[OF n] w' by simp
  show "sent w' = sent w @ [if truthyStr found then UpdatePage (the found) (WorkoutProps wk)
                               else CreatePage (workoutsDbId dbs) (WorkoutProps wk)]"
    if "truthyStr (NOTION_TOKEN env)"
    using notionRequest_token(1)[OF that n] w' by (simp add: req_def)
  show "pid = the found" if "res = Inr pid" "truthyStr found" for pid
    using assms n that by (cases r1) (simp_all add: putWorkoutPage_def req_def)
  show "\<exists>rs. notionApi env (length (sent w)) (CreatePage (workoutsDbId dbs) (WorkoutProps wk)) = Ok rs pid"
    if "res = Inr pid" "\<not> truthyStr found" for pid
    using assms that
    by (auto simp: putWorkoutPage_def notionRequest_def split: if_splits reply.splits)
  show "\<exists>rest. sent w' = sent w @ rest"
    using notionRequest_world(2)[OF n] w' by auto
qed

lemma findWorkoutPage_cases:
  assumes "findWorkoutPage env dbs wk w = (res, w')"
  shows "db w' = db w" and "\<exists>rest. sent w' = sent w @ rest"
  using assms
  by (auto simp: findWorkoutPage_def notionRequest_def split: if_splits reply.splits list.splits)

text \<open>What one workout's processing does to the store.\<close>

lemma syncWorkout_db:
  assumes "syncWorkout env dbs wk w = (res, w')"
  shows "(\<exists>rest. sent w' = sent w @ rest)
       \<and> (case res of
            Inl e \<Rightarrow> db w' = db w
          | Inr u \<Rightarrow> (\<exists>pid. db w' = markWorkoutSynced (w_id wk) pid (db w)))"
proof (cases "isDeleted wk \<and> truthyStr (notionPageId wk)")
  case True
  obtain r1 w1 where n: "notionRequest env (ArchivePage (the (notionPageId wk))) w = (r1, w1)"
    by (cases "notionRequest env (ArchivePage (the (notionPageId wk))) w")
  note nw = notionRequest_world[OF n]
  show ?thesis
  proof (cases r1)
    case (Inl e)
    with assms True n have "res = Inl e" "w' = w1" by (simp_all add: syncWorkout_def)
    with nw show ?thesis by auto
  next
    case (Inr page)
    with assms True n have "res = Inr ()"
        "w' = w1\<lparr>db := markWorkoutSynced (w_id wk) (the (notionPageId wk)) (db w1)\<rparr>"
      by (simp_all add: syncWorkout_def)
    with nw show ?thesis by auto
  qed
next
  case False
  obtain r1 w1 where f: "findWorkoutPage env dbs wk w = (r1, w1)"
    by (cases "findWorkoutPage env dbs wk w")
  note fw = findWorkoutPage_cases[OF f]
  show ?thesis
  proof (cases r1)
    case (Inl e)
    with assms False f have "res = Inl e" "w' = w1" by (simp_all add: syncWorkout_def)
    with fw show ?thesis by auto
  next
    case found: (Inr found)
    obtain r2 w2 where p: "putWorkoutPage env dbs wk found w1 = (r2, w2)"
      by (cases "putWorkoutPage env dbs wk found w1")
    note pw = putWorkoutPage_cases(1,5)[OF p]
    show ?thesis
    proof (cases r2)
      case (Inl e)
      with assms False f found p have "res = Inl e" "w' = w2" by (simp_all add: syncWorkout_def)
      with fw pw show ?thesis by auto
    next
      case pid: (Inr pid)
      obtain r3 w3 where c: "forEachE (syncExercise env dbs pid)
          (getWorkoutExercises (w_id wk) (db w2)) w2 = (r3, w3)"
        by (cases "forEachE (syncExercise env dbs pid) (getWorkoutExercises (w_id wk) (db w2)) w2")
      have cw: "db w3 = db w2" "\<exists>rest. sent w3 = sent w2 @ rest"
        using syncExercises_invariant[OF c] by (auto simp: grows_def)
      show ?thesis
      proof (cases r3)
        case (Inl e)
        with assms False f found p pid c have "res = Inl e" "w' = w3"
          by (simp_all add: syncWorkout_def)
        with fw pw cw show ?thesis by auto
      next
        case (Inr u)
        with assms False f found p pid c have "res = Inr ()"
            "w' = w3\<lparr>db := markWorkoutSynced (w_id wk) pid (db w3)\<rparr>"
          by (simp_all add: syncWorkout_def)
        with fw pw cw show ?thesis by auto
      qed
    qed
  qed
qed

section \<open>Claim C6: failures are isolated per workout\<close>

lemma filter_patch_other:
  assumes "x \<noteq> wid" "\<And>r. w_id (g r) = w_id r"
  shows "filter (\<lambda>r. w_id r = x) (map (\<lambda>r. if w_id r = wid then g r else r) xs)
       = filter (\<lambda>r. w_id r = x) xs"
  using assms by (induction xs) auto

lemma markWorkoutSynced_other:
  assumes "x \<noteq> wid"
  shows "filter (\<lambda>r. w_id r = x) (workouts (markWorkoutSynced wid pid s))
       = filter (\<lambda>r. w_id r = x) (workouts s)"
proof -
  have w: "workouts (markWorkoutSynced wid pid s) =
      map (\<lambda>r. if w_id r = wid
               then r\<lparr>syncedToNotion := True, notionPageId := Some pid\<rparr> else r) (workouts s)"
    by (simp add: markWorkoutSynced_def)
  show ?thesis
    unfolding w by (rule filter_patch_other[OF assms]) simp
qed

lemma syncStep_frame:
  assumes "syncStep env dbs (a, b, w) wk = (a', b', w')"
  shows "a' + b' = a + b + 1"
    and "x \<noteq> w_id wk \<Longrightarrow>
           filter (\<lambda>r. w_id r = x) (workouts (db w')) = filter (\<lambda>r. w_id r = x) (workouts (db w))"
    and "fst (syncWorkout env dbs wk w) = Inl e \<Longrightarrow> db w' = db w \<and> b' = b + 1"
    and "fst (syncWorkout env dbs wk w) = Inr u \<Longrightarrow> b' = b"
proof -
  obtain r1 w1 where s: "syncWorkout env dbs wk w = (r1, w1)"
    by (cases "syncWorkout env dbs wk w")
  note d = syncWorkout_db[OF s]
  have w': "w' = w1" using assms s by (cases r1) (simp_all add: syncStep_def)
  show "a' + b' = a + b + 1" using assms s by (cases r1) (auto simp: syncStep_def)
  show "filter (\<lambda>r. w_id r = x) (workouts (db w')) = filter (\<lambda>r. w_id r = x) (workouts (db w))"
    if "x \<noteq> w_id wk"
    using d that by (cases r1) (auto simp: w' markWorkoutSynced_other)
  show "db w' = db w \<and> b' = b + 1" if "fst (syncWorkout env dbs wk w) = Inl e"
    using that d assms s by (auto simp: w' syncStep_def)
  show "b' = b" if "fst (syncWorkout env dbs wk w) = Inr u"
    using that assms s by (auto simp: syncStep_def)
qed

lemma syncSteps_frame:
  assumes "foldl (syncStep env dbs) (a, b, w) wks = (a', b', w')"
  shows "a' + b' = a + b + length wks"
    and "x \<notin> w_id ` set wks \<Longrightarrow>
           filter (\<lambda>r. w_id r = x) (workouts (db w')) = filter (\<lambda>r. w_id r = x) (workouts (db w))"
proof -
  have "a' + b' = a + b + length wks
     \<and> (x \<notin> w_id ` set wks \<longrightarrow>
           filter (\<lambda>r. w_id r = x) (workouts (db w')) = filter (\<lambda>r. w_id r = x) (workouts (db w)))"
    using assms
  proof (induction wks arbitrary: a b w)
    case Nil
    then show ?case by simp
  next
    case (Cons wk wks)
    obtain a1 b1 w1 where s: "syncStep env dbs (a, b, w) wk = (a1, b1, w1)"
      by (cases "syncStep env dbs (a, b, w) wk") auto
    from Cons.prems have "foldl (syncStep env dbs) (a1, b1, w1) wks = (a', b', w')"
      by (simp add: s)
    from Cons.IH[OF this] syncStep_frame(1)[OF s] syncStep_frame(2)[OF s, of x] show ?case by auto
  qed
  then show "a' + b' = a + b + length wks"
    and "x \<notin> w_id ` set wks \<Longrightarrow>
           filter (\<lambda>r. w_id r = x) (workouts (db w')) = filter (\<lambda>r. w_id r = x) (workouts (db w))"
    by simp_all
qed

lemma syncSteps_no_token:
  assumes "\<not> truthyStr (NOTION_TOKEN env)"
  shows "foldl (syncStep env dbs) (a, b, w) wks = (a, b + length wks, w)"
  by (induction wks arbitrary: b) (simp_all add: syncStep_def syncWorkout_no_token[OF assms])

text \<open>The error counter counts the workouts whose processing failed at their turn.\<close>

lemma worldBefore_snoc:
  "i \<le> length wks \<Longrightarrow> worldBefore env dbs (wks @ [wk]) w i = worldBefore env dbs wks w i"
  by (simp add: worldBefore_def)

lemma syncSteps_errors:
  "fst (snd (foldl (syncStep env dbs) (0, 0, w) wks))
     = length (filter (\<lambda>i. isl (fst (syncWorkout env dbs (wks ! i) (worldBefore env dbs wks w i))))
         [0 ..< length wks])"
proof (induction wks rule: rev_induct)
  case Nil
  show ?case by simp
next
  case (snoc wk wks)
  obtain a b w1 where f: "foldl (syncStep env dbs) (0, 0, w) wks = (a, b, w1)"
    by (cases "foldl (syncStep env dbs) (0, 0, w) wks") auto
  have wb: "worldBefore env dbs (wks @ [wk]) w (length wks) = w1"
    by (simp add: worldBefore_def f)
  have old: "filter (\<lambda>i. isl (fst (syncWorkout env dbs ((wks @ [wk]) ! i)
                  (worldBefore env dbs (wks @ [wk]) w i)))) [0 ..< length wks]
      = filter (\<lambda>i. isl (fst (syncWorkout env dbs (wks ! i) (worldBefore env dbs wks w i))))
          [0 ..< length wks]"
    by (rule filter_cong) (simp_all add: nth_append worldBefore_snoc)
  obtain r2 w2 where s: "syncWorkout env dbs wk w1 = (r2, w2)"
    by (cases "syncWorkout env dbs wk w1")
  have last: "fst (snd (syncStep env dbs (a, b, w1) wk)) = b + (if isl r2 then 1 else 0)"
    by (cases r2) (simp_all add: syncStep_def s)
  have b: "b = length (filter (\<lambda>i. isl (fst (syncWorkout env dbs (wks ! i)
                  (worldBefore env dbs wks w i)))) [0 ..< length wks])"
    using snoc.IH by (simp add: f)
  show ?case
    by (simp add: f last old wb s b[symmetric])
qed

lemma failed_stays_unsynced:
  assumes d: "distinct (map w_id (workouts (db w)))"
    and U: "U = getUnsyncedWorkouts (db w)"
    and i: "i < length U"
    and fail: "isl (fst (syncWorkout env dbs (U ! i) (worldBefore env dbs U w i)))"
    and row: "row \<in> set (workouts (db (snd (snd (foldl (syncStep env dbs) (0, 0, w) U)))))"
      "w_id row = w_id (U ! i)"
  shows "\<not> syncedToNotion row"
proof -
  define pre where "pre = take i U"
  define post where "post = drop (Suc i) U"
  define wk where "wk = U ! i"
  have split: "U = pre @ wk # post"
    unfolding pre_def post_def wk_def using i by (rule id_take_nth_drop)
  have dU: "distinct (map w_id U)"
    unfolding U getUnsyncedWorkouts_def using d by (rule distinct_map_filter)
  have npre: "w_id wk \<notin> w_id ` set pre" and npost: "w_id wk \<notin> w_id ` set post"
    using dU unfolding split by auto
  obtain a1 b1 w1 where f1: "foldl (syncStep env dbs) (0, 0, w) pre = (a1, b1, w1)"
    by (cases "foldl (syncStep env dbs) (0, 0, w) pre") auto
  have wb: "worldBefore env dbs U w i = w1"
    by (simp add: worldBefore_def pre_def[symmetric] f1)
  obtain a2 b2 w2 where f2: "syncStep env dbs (a1, b1, w1) wk = (a2, b2, w2)"
    by (cases "syncStep env dbs (a1, b1, w1) wk") auto
  obtain a3 b3 w3 where f3: "foldl (syncStep env dbs) (a2, b2, w2) post = (a3, b3, w3)"
    by (cases "foldl (syncStep env dbs) (a2, b2, w2) post") auto
  have fin: "foldl (syncStep env dbs) (0, 0, w) U = (a3, b3, w3)"
    by (simp add: split f1 f2 f3)
  obtain e where e: "fst (syncWorkout env dbs wk w1) = Inl e"
    using fail unfolding wb wk_def[symmetric] by (cases "fst (syncWorkout env dbs wk w1)") auto
  have db2: "db w2 = db w1" using syncStep_frame(3)[OF f2 e] by simp
  have "filter (\<lambda>r. w_id r = w_id wk) (workouts (db w3))
      = filter (\<lambda>r. w_id r = w_id wk) (workouts (db w2))"
    by (rule syncSteps_frame(2)[OF f3 npost])
  also have "\<dots> = filter (\<lambda>r. w_id r = w_id wk) (workouts (db w))"
    unfolding db2 by (rule syncSteps_frame(2)[OF f1 npre])
  finally have eq: "filter (\<lambda>r. w_id r = w_id wk) (workouts (db w3))
      = filter (\<lambda>r. w_id r = w_id wk) (workouts (db w))" .
  have "row \<in> set (filter (\<lambda>r. w_id r = w_id wk) (workouts (db w3)))"
    using row by (simp add: fin wk_def)
  then have r: "row \<in> set (workouts (db w))" "w_id row = w_id wk"
    unfolding eq by simp_all
  have wkU: "wk \<in> set U" unfolding wk_def using i by simp
  then have wk: "wk \<in> set (workouts (db w))" "\<not> syncedToNotion wk"
    by (simp_all add: U getUnsyncedWorkouts_def)
  have "inj_on w_id (set (workouts (db w)))"
    using d by (simp add: distinct_map)
  then have "row = wk" using r wk(1) by (auto dest: inj_onD)
  then show ?thesis using wk(2) by simp
qed

text \<open>
  C6 (as the code has it). A pass of \<open>syncToNotion\<close> always returns its three counts
  and never throws: the total is the number of unsynced workouts, every workout counts
  as synced or as an error, and the errors are the workouts whose processing failed at
  their turn. When the ids of the workout documents are unique, a workout whose
  processing failed still has \<open>syncedToNotion = false\<close> after the pass. A missing access
  token is one of these failures: each workout is counted as an error, nothing is sent
  and nothing is written.
\<close>

theorem syncToNotion_isolated:
  assumes "distinct (map w_id (workouts (db w)))"
  shows "\<exists>r w'. syncToNotion env dbs w = (Inr r, w')
       \<and> total r = length (getUnsyncedWorkouts (db w))
       \<and> synced r + errors r = total r
       \<and> errors r =
           length (filter (\<lambda>i. isl (fst (syncWorkout env dbs (getUnsyncedWorkouts (db w) ! i)
                                      (worldBefore env dbs (getUnsyncedWorkouts (db w)) w i))))
                     [0 ..< length (getUnsyncedWorkouts (db w))])
       \<and> (\<forall>i < length (getUnsyncedWorkouts (db w)).
             isl (fst (syncWorkout env dbs (getUnsyncedWorkouts (db w) ! i)
                        (worldBefore env dbs (getUnsyncedWorkouts (db w)) w i))) \<longrightarrow>
             (\<forall>row\<in>set (workouts (db w')).
                w_id row = w_id (getUnsyncedWorkouts (db w) ! i) \<longrightarrow> \<not> syncedToNotion row))
       \<and> (\<not> truthyStr (NOTION_TOKEN env) \<longrightarrow> synced r = 0 \<and> errors r = total r \<and> w' = w)"
proof -
  define U where "U = getUnsyncedWorkouts (db w)"
  obtain a b w' where f: "foldl (syncStep env dbs) (0, 0, w) U = (a, b, w')"
    by (cases "foldl (syncStep env dbs) (0, 0, w) U") auto
  define r where "r = \<lparr>synced = a, errors = b, total = length U\<rparr>"
  have s: "syncToNotion env dbs w = (Inr r, w')"
    by (simp add: syncToNotion_def Let_def U_def[symmetric] f r_def)
  have t: "total r = length U" by (simp add: r_def)
  have c: "synced r + errors r = total r"
    using syncSteps_frame(1)[OF f] by (simp add: r_def)
  have e: "errors r = length (filter (\<lambda>i. isl (fst (syncWorkout env dbs (U ! i)
                                      (worldBefore env dbs U w i)))) [0 ..< length U])"
    using syncSteps_errors[of env dbs w U] by (simp add: f r_def)
  have k: "\<forall>i < length U.
             isl (fst (syncWorkout env dbs (U ! i) (worldBefore env dbs U w i))) \<longrightarrow>
             (\<forall>row\<in>set (workouts (db w')). w_id row = w_id (U ! i) \<longrightarrow> \<not> syncedToNotion row)"
  proof (intro allI impI ballI)
    fix i row
    assume "i < length U"
      "isl (fst (syncWorkout env dbs (U ! i) (worldBefore env dbs U w i)))"
      "row \<in> set (workouts (db w'))" "w_id row = w_id (U ! i)"
    then show "\<not> syncedToNotion row"
      using failed_stays_unsynced[OF assms U_def, of i env dbs row] by (simp add: f)
  qed
  have n: "\<not> truthyStr (NOTION_TOKEN env) \<longrightarrow> synced r = 0 \<and> errors r = total r \<and> w' = w"
  proof
    assume "\<not> truthyStr (NOTION_TOKEN env)"
    from syncSteps_no_token[OF this, of dbs 0 0 w U] f
    show "synced r = 0 \<and> errors r = total r \<and> w' = w" by (simp add: r_def)
  qed
  show ?thesis
    unfolding U_def[symmetric]
    using s t c e k n by blast
qed

lemma specWorld_unsynced:
  "getUnsyncedWorkouts (db specWorld) = [newWorkout (\<lambda>t. 0) specWorkout 0]"
  by (simp add: specWorld_def getUnsyncedWorkouts_def specStore_workouts newWorkout_def
      split: prod.splits)

theorem syncToNotion_isolated_witness:
  "distinct (map w_id (workouts (db specWorld)))
   \<and> (\<exists>r w'. syncToNotion failingEnv specDbs specWorld = (Inr r, w')
         \<and> total r = 1 \<and> synced r + errors r = total r)"
proof -
  have h: "distinct (map w_id (workouts (db specWorld)))"
    by (simp add: specWorld_def specStore_workouts)
  have l: "length (getUnsyncedWorkouts (db specWorld)) = 1"
    by (simp add: specWorld_unsynced)
  show ?thesis
    using h syncToNotion_isolated [OF h, of failingEnv specDbs]
    unfolding l by blast
qed

text \<open>Without an access token the pass returns; it does not throw.\<close>

theorem syncToNotion_isolated_counterexample:
  "syncToNotion noTokenEnv specDbs specWorld
     = (Inr \<lparr>synced = 0, errors = 1, total = 1\<rparr>, specWorld)"
proof -
  have n: "\<not> truthyStr (NOTION_TOKEN noTokenEnv)" by (simp add: noTokenEnv_def)
  show ?thesis
    by (simp add: syncToNotion_def specWorld_unsynced syncSteps_no_token[OF n])
qed

section \<open>Claim C10: a workout deleted before it was mirrored\<close>

text \<open>With a reliable mirror the children are all created.\<close>

lemma createSetPages_reliable:
  assumes "reliable env"
  shows "\<exists>rest. forEachE (createSetPage env dbs pid) rows w = (Inr (), w\<lparr>sent := sent w @ rest\<rparr>)
      \<and> length rest = length rows \<and> list_all isChildCreate rest"
proof (induction rows arbitrary: w)
  case Nil
  show ?case by simp
next
  case (Cons st rows)
  obtain rs p where n: "notionRequest env (CreatePage (setsDbId dbs) (SetProps st pid)) w
      = (Inr (rs, p), w\<lparr>sent := sent w @ [CreatePage (setsDbId dbs) (SetProps st pid)]\<rparr>)"
    using notionRequest_reliable[OF assms] by blast
  define w1 where "w1 = w\<lparr>sent := sent w @ [CreatePage (setsDbId dbs) (SetProps st pid)]\<rparr>"
  obtain rest where r: "forEachE (createSetPage env dbs pid) rows w1 = (Inr (), w1\<lparr>sent := sent w1 @ rest\<rparr>)"
      "length rest = length rows" "list_all isChildCreate rest"
    using Cons.IH[of w1] by blast
  have "forEachE (createSetPage env dbs pid) (st # rows) w
      = (Inr (), w\<lparr>sent := sent w @ (CreatePage (setsDbId dbs) (SetProps st pid) # rest)\<rparr>)"
    by (simp add: createSetPage_def n w1_def[symmetric] r(1)) (simp add: w1_def)
  then show ?case using r(2,3) by (intro exI[of _ "CreatePage (setsDbId dbs) (SetProps st pid) # rest"]) simp
qed

lemma syncExercise_reliable:
  assumes "reliable env"
  shows "\<exists>rest. syncExercise env dbs pid ex w = (Inr (), w\<lparr>sent := sent w @ rest\<rparr>)
      \<and> length rest = 1 + length (getExerciseSets (e_id ex) (db w)) \<and> list_all isChildCreate rest"
proof -
  define rows where "rows = getExerciseSets (e_id ex) (db w)"
  define req where "req = CreatePage (exercisesDbId dbs)
                (ExerciseProps ex pid (length rows) (round1 (exerciseVolume rows)))"
  obtain rs p where n: "notionRequest env req w = (Inr (rs, p), w\<lparr>sent := sent w @ [req]\<rparr>)"
    using notionRequest_reliable[OF assms] by blast
  define w1 where "w1 = w\<lparr>sent := sent w @ [req]\<rparr>"
  obtain rest where r: "forEachE (createSetPage env dbs p) rows w1 = (Inr (), w1\<lparr>sent := sent w1 @ rest\<rparr>)"
      "length rest = length rows" "list_all isChildCreate rest"
    using createSetPages_reliable[OF assms, of dbs p rows w1] by blast
  have "syncExercise env dbs pid ex w = (Inr (), w\<lparr>sent := sent w @ (req # rest)\<rparr>)"
    by (simp add: syncExercise_def Let_def rows_def[symmetric] req_def[symmetric] n
        w1_def[symmetric] r(1)) (simp add: w1_def)
  moreover have "isChildCreate req" by (simp add: req_def)
  ultimately show ?thesis
    using r(2,3) by (intro exI[of _ "req # rest"]) (simp add: rows_def)
qed

lemma syncExercises_reliable:
  assumes "reliable env"
  shows "\<exists>rest. forEachE (syncExercise env dbs pid) exs w = (Inr (), w\<lparr>sent := sent w @ rest\<rparr>)
      \<and> length rest = length exs + sum_list (map (\<lambda>ex. length (getExerciseSets (e_id ex) (db w))) exs)
      \<and> list_all isChildCreate rest"
proof (induction exs arbitrary: w)
  case Nil
  show ?case by simp
next
  case (Cons ex exs)
  obtain r1 where a: "syncExercise env dbs pid ex w = (Inr (), w\<lparr>sent := sent w @ r1\<rparr>)"
      "length r1 = 1 + length (getExerciseSets (e_id ex) (db w))" "list_all isChildCreate r1"
    using syncExercise_reliable[OF assms] by blast
  define w1 where "w1 = w\<lparr>sent := sent w @ r1\<rparr>"
  have d1: "db w1 = db w" by (simp add: w1_def)
  obtain r2 where b: "forEachE (syncExercise env dbs pid) exs w1 = (Inr (), w1\<lparr>sent := sent w1 @ r2\<rparr>)"
      "length r2 = length exs + sum_list (map (\<lambda>ex. length (getExerciseSets (e_id ex) (db w1))) exs)"
      "list_all isChildCreate r2"
    using Cons.IH[of w1] by blast
  have "forEachE (syncExercise env dbs pid) (ex # exs) w = (Inr (), w\<lparr>sent := sent w @ (r1 @ r2)\<rparr>)"
    by (simp add: a(1) w1_def[symmetric] b(1)) (simp add: w1_def)
  then show ?case
    using a(2,3) b(2,3) by (intro exI[of _ "r1 @ r2"]) (simp add: d1)
qed

lemma syncWorkout_stages:
  assumes "\<not> (isDeleted wk \<and> truthyStr (notionPageId wk))"
    and "findWorkoutPage env dbs wk w = (Inr found, w1)"
    and "putWorkoutPage env dbs wk found w1 = (r2, w2)"
  shows "\<And>e. r2 = Inl e \<Longrightarrow> syncWorkout env dbs wk w = (Inl e, w2)"
    and "\<And>pid r3 w3. r2 = Inr pid \<Longrightarrow>
           forEachE (syncExercise env dbs pid) (getWorkoutExercises (w_id wk) (db w2)) w2 = (r3, w3) \<Longrightarrow>
           syncWorkout env dbs wk w =
             (case r3 of
                Inl e \<Rightarrow> (Inl e, w3)
              | Inr u \<Rightarrow> (Inr (), w3\<lparr>db := markWorkoutSynced (w_id wk) pid (db w3)\<rparr>))"
  using assms by (auto simp: syncWorkout_def split: sum.splits)

lemma findWorkoutPage_query:
  assumes "truthyStr (NOTION_TOKEN env)" "\<not> truthyStr (notionPageId wk)"
    and "notionApi env (length (sent w)) (QueryDatabase (workoutsDbId dbs) (hevyId wk)) = Ok results i"
  shows "findWorkoutPage env dbs wk w =
     (Inr (case results of [] \<Rightarrow> notionPageId wk | page # others \<Rightarrow> Some page),
      w\<lparr>sent := sent w @ [QueryDatabase (workoutsDbId dbs) (hevyId wk)]\<rparr>)"
  using assms by (simp add: findWorkoutPage_def notionRequest_def split: list.splits)

text \<open>A workout without a stored page id: the search decides between update and create.\<close>

lemma syncWorkout_searched:
  assumes tok: "truthyStr (NOTION_TOKEN env)" and nop: "\<not> truthyStr (notionPageId wk)"
    and q: "notionApi env (length (sent w)) (QueryDatabase (workoutsDbId dbs) (hevyId wk)) = Ok results i"
    and found: "found = (case results of [] \<Rightarrow> notionPageId wk | page # others \<Rightarrow> Some page)"
    and run: "syncWorkout env dbs wk w = (res, w')"
  shows "\<exists>rest. sent w' = sent w @
              [QueryDatabase (workoutsDbId dbs) (hevyId wk),
               if truthyStr found then UpdatePage (the found) (WorkoutProps wk)
               else CreatePage (workoutsDbId dbs) (WorkoutProps wk)] @ rest
            \<and> list_all isChildCreate rest"
    and "res = Inr () \<Longrightarrow> truthyStr found \<Longrightarrow>
           db w' = markWorkoutSynced (w_id wk) (the found) (db w)"
    and "\<And>e. res = Inl e \<Longrightarrow> db w' = db w"
proof -
  define w1 where "w1 = w\<lparr>sent := sent w @ [QueryDatabase (workoutsDbId dbs) (hevyId wk)]\<rparr>"
  have f: "findWorkoutPage env dbs wk w = (Inr found, w1)"
    unfolding found w1_def by (rule findWorkoutPage_query[OF tok nop q])
  have na: "\<not> (isDeleted wk \<and> truthyStr (notionPageId wk))" using nop by simp
  obtain r2 w2 where p: "putWorkoutPage env dbs wk found w1 = (r2, w2)"
    by (cases "putWorkoutPage env dbs wk found w1")
  note pc = putWorkoutPage_cases[OF p]
  have s2: "sent w2 = sent w @
              [QueryDatabase (workoutsDbId dbs) (hevyId wk),
               if truthyStr found then UpdatePage (the found) (WorkoutProps wk)
               else CreatePage (workoutsDbId dbs) (WorkoutProps wk)]"
    using pc(2)[OF tok] by (simp add: w1_def)
  have d2: "db w2 = db w" using pc(1) by (simp add: w1_def)
  have "(\<exists>rest. sent w' = sent w @
              [QueryDatabase (workoutsDbId dbs) (hevyId wk),
               if truthyStr found then UpdatePage (the found) (WorkoutProps wk)
               else CreatePage (workoutsDbId dbs) (WorkoutProps wk)] @ rest
            \<and> list_all isChildCreate rest)
        \<and> (res = Inr () \<longrightarrow> truthyStr found \<longrightarrow>
           db w' = markWorkoutSynced (w_id wk) (the found) (db w))
        \<and> (\<forall>e. res = Inl e \<longrightarrow> db w' = db w)"
  proof (cases r2)
    case (Inl e)
    have "syncWorkout env dbs wk w = (Inl e, w2)"
      by (rule syncWorkout_stages(1)[OF na f p Inl])
    with run have "res = Inl e" "w' = w2" by simp_all
    then show ?thesis using s2 d2 by simp
  next
    case (Inr pid)
    obtain r3 w3 where c: "forEachE (syncExercise env dbs pid)
        (getWorkoutExercises (w_id wk) (db w2)) w2 = (r3, w3)"
      by (cases "forEachE (syncExercise env dbs pid) (getWorkoutExercises (w_id wk) (db w2)) w2")
    have ci: "db w3 = db w2" "grows isChildCreate w2 w3"
      using syncExercises_invariant[OF c] by simp_all
    then obtain rest where rest: "sent w3 = sent w2 @ rest" "list_all isChildCreate rest"
      by (auto simp: grows_def)
    have sw: "syncWorkout env dbs wk w =
             (case r3 of
                Inl e \<Rightarrow> (Inl e, w3)
              | Inr u \<Rightarrow> (Inr (), w3\<lparr>db := markWorkoutSynced (w_id wk) pid (db w3)\<rparr>))"
      by (rule syncWorkout_stages(2)[OF na f p Inr c])
    have s3: "sent w' = sent w3"
      using run sw by (cases r3) auto
    have tr: "\<exists>rest. sent w' = sent w @
              [QueryDatabase (workoutsDbId dbs) (hevyId wk),
               if truthyStr found then UpdatePage (the found) (WorkoutProps wk)
               else CreatePage (workoutsDbId dbs) (WorkoutProps wk)] @ rest
            \<and> list_all isChildCreate rest"
      using rest unfolding s3 s2 by auto
    have ok: "db w' = markWorkoutSynced (w_id wk) (the found) (db w)"
      if "res = Inr ()" "truthyStr found"
    proof -
      have "pid = the found" by (rule pc(3)[OF Inr that(2)])
      then show ?thesis using run sw that(1) ci(1) d2 by (cases r3) auto
    qed
    have er: "db w' = db w" if "res = Inl e" for e
      using run sw that ci(1) d2 by (cases r3) auto
    show ?thesis using tr ok er by blast
  qed
  then show "\<exists>rest. sent w' = sent w @
              [QueryDatabase (workoutsDbId dbs) (hevyId wk),
               if truthyStr found then UpdatePage (the found) (WorkoutProps wk)
               else CreatePage (workoutsDbId dbs) (WorkoutProps wk)] @ rest
            \<and> list_all isChildCreate rest"
    and "res = Inr () \<Longrightarrow> truthyStr found \<Longrightarrow>
           db w' = markWorkoutSynced (w_id wk) (the found) (db w)"
    and "\<And>e. res = Inl e \<Longrightarrow> db w' = db w"
    by blast+
qed

lemma putWorkoutPage_reliable:
  assumes "reliable env"
  shows "\<exists>pid second.
      putWorkoutPage env dbs wk found w = (Inr pid, w\<lparr>sent := sent w @ [second]\<rparr>)
    \<and> (if truthyStr found
         then second = UpdatePage pid (WorkoutProps wk) \<and> found = Some pid
         else second = CreatePage (workoutsDbId dbs) (WorkoutProps wk)
            \<and> (\<exists>rs. notionApi env (length (sent w)) second = Ok rs pid))"
proof (cases "truthyStr found")
  case True
  then obtain p where p: "found = Some p" by (cases found) auto
  obtain rs i where "notionRequest env (UpdatePage p (WorkoutProps wk)) w
      = (Inr (rs, i), w\<lparr>sent := sent w @ [UpdatePage p (WorkoutProps wk)]\<rparr>)"
    using notionRequest_reliable[OF assms] by blast
  then have "putWorkoutPage env dbs wk found w
      = (Inr p, w\<lparr>sent := sent w @ [UpdatePage p (WorkoutProps wk)]\<rparr>)"
    using True by (simp add: putWorkoutPage_def p)
  then show ?thesis using True p by auto
next
  case False
  obtain rs i where n: "notionRequest env (CreatePage (workoutsDbId dbs) (WorkoutProps wk)) w
      = (Inr (rs, i), w\<lparr>sent := sent w @ [CreatePage (workoutsDbId dbs) (WorkoutProps wk)]\<rparr>)"
      "notionApi env (length (sent w)) (CreatePage (workoutsDbId dbs) (WorkoutProps wk)) = Ok rs i"
    using notionRequest_reliable[OF assms] by blast
  then have "putWorkoutPage env dbs wk found w
      = (Inr i, w\<lparr>sent := sent w @ [CreatePage (workoutsDbId dbs) (WorkoutProps wk)]\<rparr>)"
    using False by (simp add: putWorkoutPage_def)
  then show ?thesis using False n(2) by auto
qed

lemma markWorkoutSynced_row:
  assumes "wk \<in> set (workouts s)"
  shows "wk\<lparr>syncedToNotion := True, notionPageId := Some pid\<rparr>
           \<in> set (workouts (markWorkoutSynced (w_id wk) pid s))"
  using assms by (force simp: markWorkoutSynced_def image_iff)

text \<open>
  The push of one workout that is deleted and has no stored page id, with a mirror that
  answers every request: search, then update or create, then the children, then the mark.
\<close>

lemma syncWorkout_deleted_unmirrored:
  assumes "reliable env" and "isDeleted wk" and "\<not> truthyStr (notionPageId wk)"
    and "wk \<in> set (workouts (db w))"
  shows "\<exists>pid second rest.
      syncWorkout env dbs wk w =
        (Inr (), w\<lparr>sent := sent w @
                     [QueryDatabase (workoutsDbId dbs) (hevyId wk), second] @ rest,
                   db := markWorkoutSynced (w_id wk) pid (db w)\<rparr>)
    \<and> (second = CreatePage (workoutsDbId dbs) (WorkoutProps wk)
         \<and> (\<exists>rs. notionApi env (Suc (length (sent w))) second = Ok rs pid)
       \<or> second = UpdatePage pid (WorkoutProps wk)
         \<and> (\<exists>ps i. notionApi env (length (sent w))
                        (QueryDatabase (workoutsDbId dbs) (hevyId wk)) = Ok (pid # ps) i))
    \<and> list_all isChildCreate rest
    \<and> length rest =
          length (getWorkoutExercises (w_id wk) (db w))
          + sum_list (map (\<lambda>ex. length (getExerciseSets (e_id ex) (db w)))
                       (getWorkoutExercises (w_id wk) (db w)))
    \<and> wk\<lparr>syncedToNotion := True, notionPageId := Some pid\<rparr>
          \<in> set (workouts (markWorkoutSynced (w_id wk) pid (db w)))"
proof -
  have tok: "truthyStr (NOTION_TOKEN env)" using assms(1) by (simp add: reliable_def)
  define q where "q = QueryDatabase (workoutsDbId dbs) (hevyId wk)"
  obtain results i where qr: "notionApi env (length (sent w)) q = Ok results i"
    using notionRequest_reliable[OF assms(1), of q w] by blast
  define found where "found = (case results of [] \<Rightarrow> notionPageId wk | page # others \<Rightarrow> Some page)"
  define w1 where "w1 = w\<lparr>sent := sent w @ [q]\<rparr>"
  have f: "findWorkoutPage env dbs wk w = (Inr found, w1)"
    unfolding found_def w1_def q_def
    by (rule findWorkoutPage_query[OF tok assms(3) qr[unfolded q_def]])
  obtain pid second where p: "putWorkoutPage env dbs wk found w1 = (Inr pid, w1\<lparr>sent := sent w1 @ [second]\<rparr>)"
    and k: "if truthyStr found
         then second = UpdatePage pid (WorkoutProps wk) \<and> found = Some pid
         else second = CreatePage (workoutsDbId dbs) (WorkoutProps wk)
            \<and> (\<exists>rs. notionApi env (length (sent w1)) second = Ok rs pid)"
    using putWorkoutPage_reliable[OF assms(1), of dbs wk found w1] by blast
  define w2 where "w2 = w1\<lparr>sent := sent w1 @ [second]\<rparr>"
  have d2: "db w2 = db w" by (simp add: w2_def w1_def)
  obtain rest where c: "forEachE (syncExercise env dbs pid) (getWorkoutExercises (w_id wk) (db w2)) w2
        = (Inr (), w2\<lparr>sent := sent w2 @ rest\<rparr>)"
    and cl: "length rest = length (getWorkoutExercises (w_id wk) (db w2))
        + sum_list (map (\<lambda>ex. length (getExerciseSets (e_id ex) (db w2)))
            (getWorkoutExercises (w_id wk) (db w2)))"
    and cc: "list_all isChildCreate rest"
    using syncExercises_reliable[OF assms(1), of dbs pid "getWorkoutExercises (w_id wk) (db w2)" w2]
    by blast
  have na: "\<not> (isDeleted wk \<and> truthyStr (notionPageId wk))" using assms(3) by simp
  have "syncWorkout env dbs wk w =
      (Inr (), (w2\<lparr>sent := sent w2 @ rest\<rparr>)\<lparr>db := markWorkoutSynced (w_id wk) pid
          (db (w2\<lparr>sent := sent w2 @ rest\<rparr>))\<rparr>)"
    using syncWorkout_stages(2)[OF na f p[folded w2_def] refl c] by simp
  then have 1: "syncWorkout env dbs wk w =
        (Inr (), w\<lparr>sent := sent w @ [q, second] @ rest,
                   db := markWorkoutSynced (w_id wk) pid (db w)\<rparr>)"
    by (simp add: w2_def w1_def)
  have 2: "second = CreatePage (workoutsDbId dbs) (WorkoutProps wk)
         \<and> (\<exists>rs. notionApi env (Suc (length (sent w))) second = Ok rs pid)
       \<or> second = UpdatePage pid (WorkoutProps wk)
         \<and> (\<exists>ps i. notionApi env (length (sent w)) q = Ok (pid # ps) i)"
  proof (cases "truthyStr found")
    case True
    with k have s: "second = UpdatePage pid (WorkoutProps wk)" "found = Some pid" by simp_all
    have "results \<noteq> []"
      using s(2) True assms(3) by (auto simp: found_def)
    then obtain ps where "results = pid # ps"
      using s(2) by (cases results) (auto simp: found_def)
    then show ?thesis using s(1) qr by auto
  next
    case False
    have k': "second = CreatePage (workoutsDbId dbs) (WorkoutProps wk)
            \<and> (\<exists>rs. notionApi env (length (sent w1)) second = Ok rs pid)"
      using k False by (auto split: if_splits)
    then have "second = CreatePage (workoutsDbId dbs) (WorkoutProps wk)"
      "\<exists>rs. notionApi env (length (sent w1)) second = Ok rs pid" by blast+
    moreover have "length (sent w1) = Suc (length (sent w))" by (simp add: w1_def)
    ultimately show ?thesis by metis
  qed
  have 4: "length rest =
          length (getWorkoutExercises (w_id wk) (db w))
          + sum_list (map (\<lambda>ex. length (getExerciseSets (e_id ex) (db w)))
                       (getWorkoutExercises (w_id wk) (db w)))"
    using cl unfolding d2 .
  have 5: "wk\<lparr>syncedToNotion := True, notionPageId := Some pid\<rparr>
          \<in> set (workouts (markWorkoutSynced (w_id wk) pid (db w)))"
    by (rule markWorkoutSynced_row[OF assms(4)])
  show ?thesis
    using 1 2 cc 4 5 unfolding q_def by blast
qed

lemma syncWorkout_reliable:
  assumes "reliable env"
  shows "\<exists>w'. syncWorkout env dbs wk w = (Inr (), w')"
proof (cases "isDeleted wk \<and> truthyStr (notionPageId wk)")
  case True
  obtain rs p where "notionRequest env (ArchivePage (the (notionPageId wk))) w
      = (Inr (rs, p), w\<lparr>sent := sent w @ [ArchivePage (the (notionPageId wk))]\<rparr>)"
    using notionRequest_reliable[OF assms] by blast
  then show ?thesis using True by (simp add: syncWorkout_def)
next
  case False
  have "\<exists>found w1. findWorkoutPage env dbs wk w = (Inr found, w1)"
  proof (cases "truthyStr (notionPageId wk)")
    case True
    then show ?thesis by (simp add: findWorkoutPage_def)
  next
    case nop: False
    have tok: "truthyStr (NOTION_TOKEN env)" using assms by (simp add: reliable_def)
    obtain results i where
      "notionApi env (length (sent w)) (QueryDatabase (workoutsDbId dbs) (hevyId wk)) = Ok results i"
      using notionRequest_reliable[OF assms, of "QueryDatabase (workoutsDbId dbs) (hevyId wk)" w]
      by blast
    from findWorkoutPage_query[OF tok nop this] show ?thesis by blast
  qed
  then obtain found w1 where f: "findWorkoutPage env dbs wk w = (Inr found, w1)" by blast
  obtain pid second where
    p: "putWorkoutPage env dbs wk found w1 = (Inr pid, w1\<lparr>sent := sent w1 @ [second]\<rparr>)"
    using putWorkoutPage_reliable[OF assms, of dbs wk found w1] by blast
  define w2 where "w2 = w1\<lparr>sent := sent w1 @ [second]\<rparr>"
  obtain rest where c: "forEachE (syncExercise env dbs pid)
        (getWorkoutExercises (w_id wk) (db w2)) w2 = (Inr (), w2\<lparr>sent := sent w2 @ rest\<rparr>)"
    using syncExercises_reliable[OF assms, of dbs pid "getWorkoutExercises (w_id wk) (db w2)" w2]
    by blast
  show ?thesis
    using syncWorkout_stages(2)[OF False f p[folded w2_def] refl c] by simp
qed

lemma syncSteps_reliable:
  assumes "reliable env"
  shows "\<exists>w'. foldl (syncStep env dbs) (a, b, w) wks = (a + length wks, b, w')"
proof (induction wks arbitrary: a w)
  case Nil
  show ?case by simp
next
  case (Cons wk wks)
  obtain w1 where s: "syncWorkout env dbs wk w = (Inr (), w1)"
    using syncWorkout_reliable[OF assms] by blast
  have "syncStep env dbs (a, b, w) wk = (a + 1, b, w1)"
    by (simp add: syncStep_def s)
  then show ?case using Cons.IH[of "a + 1" w1] by simp
qed

lemma markWorkoutSynced_children:
  "exercises (markWorkoutSynced wid pid s) = exercises s"
  "sets (markWorkoutSynced wid pid s) = sets s"
  by (simp_all add: markWorkoutSynced_def)

lemma syncStep_children:
  assumes "syncStep env dbs (a, b, w) wk = (a', b', w')"
  shows "(\<exists>rest. sent w' = sent w @ rest)
       \<and> exercises (db w') = exercises (db w) \<and> sets (db w') = sets (db w)"
proof -
  obtain r1 w1 where s: "syncWorkout env dbs wk w = (r1, w1)"
    by (cases "syncWorkout env dbs wk w")
  note d = syncWorkout_db[OF s]
  have w': "w' = w1" using assms s by (cases r1) (simp_all add: syncStep_def)
  show ?thesis
    using d by (cases r1) (auto simp: w' markWorkoutSynced_children)
qed

lemma syncSteps_children:
  assumes "foldl (syncStep env dbs) (a, b, w) wks = (a', b', w')"
  shows "(\<exists>rest. sent w' = sent w @ rest)
       \<and> exercises (db w') = exercises (db w) \<and> sets (db w') = sets (db w)"
  using assms
proof (induction wks arbitrary: a b w)
  case Nil
  then show ?case by simp
next
  case (Cons wk wks)
  obtain a1 b1 w1 where s: "syncStep env dbs (a, b, w) wk = (a1, b1, w1)"
    by (cases "syncStep env dbs (a, b, w) wk") auto
  from Cons.prems have "foldl (syncStep env dbs) (a1, b1, w1) wks = (a', b', w')"
    by (simp add: s)
  from Cons.IH[OF this] syncStep_children[OF s] show ?case by auto
qed

lemma filter_key_single:
  assumes "distinct (map f xs)" "x \<in> set xs"
  shows "filter (\<lambda>r. f r = f x) xs = [x]"
  using assms
proof (induction xs)
  case Nil
  then show ?case by simp
next
  case (Cons y ys)
  show ?case
  proof (cases "x = y")
    case True
    have "filter (\<lambda>r. f r = f x) ys = []"
      using Cons.prems(1) True by (force simp: filter_empty_conv image_iff)
    then show ?thesis using True by simp
  next
    case False
    then have "x \<in> set ys" using Cons.prems(2) by simp
    moreover have "f y \<noteq> f x" using Cons.prems(1) calculation by auto
    ultimately show ?thesis using Cons by simp
  qed
qed

lemma markWorkoutSynced_filter:
  "filter (\<lambda>r. w_id r = wid) (workouts (markWorkoutSynced wid pid s))
     = map (\<lambda>r. r\<lparr>syncedToNotion := True, notionPageId := Some pid\<rparr>)
         (filter (\<lambda>r. w_id r = wid) (workouts s))"
proof -
  have "filter (\<lambda>r. w_id r = wid)
          (map (\<lambda>r. if w_id r = wid
               then r\<lparr>syncedToNotion := True, notionPageId := Some pid\<rparr> else r) xs)
      = map (\<lambda>r. r\<lparr>syncedToNotion := True, notionPageId := Some pid\<rparr>)
          (filter (\<lambda>r. w_id r = wid) xs)" for xs :: "workout_row list"
    by (induction xs) auto
  then show ?thesis by (simp add: markWorkoutSynced_def)
qed


lemma worldBefore_Suc:
  assumes "i < length U"
  shows "worldBefore env dbs U w (Suc i)
       = snd (snd (syncStep env dbs (foldl (syncStep env dbs) (0, 0, w) (take i U)) (U ! i)))"
  using assms by (simp add: worldBefore_def take_Suc_conv_app_nth)

text \<open>
  C10. A workout with \<open>isDeleted = true\<close> and no stored mirror page id that is not yet
  synced is neither skipped nor archived by a pass of \<open>syncToNotion\<close>. With unique
  document ids and a mirror that answers every request, the workout is among the unsynced
  workouts the pass goes through, the pass counts no error, and at the workout's turn the
  requests sent are exactly these: the search of the workouts database by natural key,
  then the update of the page found or the creation of a page, then the creation of one
  page for each of its exercises and each of their sets. No archive request is among
  them. After the pass the workout's row holds the page id and is marked synced.
\<close>

theorem deleted_unmirrored_pushed:
  assumes rel: "reliable env"
    and d: "distinct (map w_id (workouts (db w)))"
    and mem: "wk \<in> set (workouts (db w))"
    and del: "isDeleted wk" and nop: "\<not> truthyStr (notionPageId wk)"
    and uns: "\<not> syncedToNotion wk"
  shows "\<exists>r w' i before pid second rest.
      syncToNotion env dbs w = (Inr r, w')
    \<and> total r = length (getUnsyncedWorkouts (db w)) \<and> synced r = total r \<and> errors r = 0
    \<and> i < length (getUnsyncedWorkouts (db w)) \<and> getUnsyncedWorkouts (db w) ! i = wk
    \<and> sent (worldBefore env dbs (getUnsyncedWorkouts (db w)) w i) = sent w @ before
    \<and> sent (worldBefore env dbs (getUnsyncedWorkouts (db w)) w (Suc i))
         = sent w @ before @ [QueryDatabase (workoutsDbId dbs) (hevyId wk), second] @ rest
    \<and> (second = CreatePage (workoutsDbId dbs) (WorkoutProps wk)
         \<and> (\<exists>rs. notionApi env (Suc (length (sent w @ before))) second = Ok rs pid)
       \<or> second = UpdatePage pid (WorkoutProps wk)
         \<and> (\<exists>ps j. notionApi env (length (sent w @ before))
                        (QueryDatabase (workoutsDbId dbs) (hevyId wk)) = Ok (pid # ps) j))
    \<and> list_all isChildCreate rest
    \<and> length rest =
          length (getWorkoutExercises (w_id wk) (db w))
          + sum_list (map (\<lambda>ex. length (getExerciseSets (e_id ex) (db w)))
                       (getWorkoutExercises (w_id wk) (db w)))
    \<and> (\<exists>after. sent w' = sent w @ before
                    @ [QueryDatabase (workoutsDbId dbs) (hevyId wk), second] @ rest @ after)
    \<and> filter (\<lambda>row. w_id row = w_id wk) (workouts (db w'))
         = [wk\<lparr>syncedToNotion := True, notionPageId := Some pid\<rparr>]"
proof -
  define U where "U = getUnsyncedWorkouts (db w)"
  define q where "q = QueryDatabase (workoutsDbId dbs) (hevyId wk)"
  have wkU: "wk \<in> set U"
    using mem uns by (simp add: U_def getUnsyncedWorkouts_def)
  then obtain i where i: "i < length U" "U ! i = wk"
    by (auto simp: in_set_conv_nth)
  define pre where "pre = take i U"
  define post where "post = drop (Suc i) U"
  have split: "U = pre @ wk # post"
    unfolding pre_def post_def i(2)[symmetric] using i(1) by (rule id_take_nth_drop)
  have dU: "distinct (map w_id U)"
    unfolding U_def getUnsyncedWorkouts_def using d by (rule distinct_map_filter)
  have npre: "w_id wk \<notin> w_id ` set pre" and npost: "w_id wk \<notin> w_id ` set post"
    using dU unfolding split by auto
  obtain a1 b1 w1 where f1: "foldl (syncStep env dbs) (0, 0, w) pre = (a1, b1, w1)"
    by (cases "foldl (syncStep env dbs) (0, 0, w) pre") auto
  have wb: "worldBefore env dbs U w i = w1"
    by (simp add: worldBefore_def pre_def[symmetric] f1)
  note c1 = syncSteps_children[OF f1]
  from c1 obtain before where before: "sent w1 = sent w @ before" by blast
  have ch1: "exercises (db w1) = exercises (db w)" "sets (db w1) = sets (db w)"
    using c1 by simp_all
  have row1: "filter (\<lambda>r. w_id r = w_id wk) (workouts (db w1))
      = filter (\<lambda>r. w_id r = w_id wk) (workouts (db w))"
    by (rule syncSteps_frame(2)[OF f1 npre])
  have one: "filter (\<lambda>r. w_id r = w_id wk) (workouts (db w)) = [wk]"
    by (rule filter_key_single[OF d mem])
  have "wk \<in> set (filter (\<lambda>r. w_id r = w_id wk) (workouts (db w1)))"
    unfolding row1 one by simp
  then have mem1: "wk \<in> set (workouts (db w1))" by simp
  obtain pid second rest where
    run: "syncWorkout env dbs wk w1 =
        (Inr (), w1\<lparr>sent := sent w1 @ [q, second] @ rest,
                   db := markWorkoutSynced (w_id wk) pid (db w1)\<rparr>)"
    and sec: "second = CreatePage (workoutsDbId dbs) (WorkoutProps wk)
         \<and> (\<exists>rs. notionApi env (Suc (length (sent w1))) second = Ok rs pid)
       \<or> second = UpdatePage pid (WorkoutProps wk)
         \<and> (\<exists>ps j. notionApi env (length (sent w1)) q = Ok (pid # ps) j)"
    and kids: "list_all isChildCreate rest"
    and len: "length rest =
          length (getWorkoutExercises (w_id wk) (db w1))
          + sum_list (map (\<lambda>ex. length (getExerciseSets (e_id ex) (db w1)))
                       (getWorkoutExercises (w_id wk) (db w1)))"
    using syncWorkout_deleted_unmirrored[OF rel del nop mem1, of dbs]
    unfolding q_def by blast
  define w2 where "w2 = w1\<lparr>sent := sent w1 @ [q, second] @ rest,
                   db := markWorkoutSynced (w_id wk) pid (db w1)\<rparr>"
  have f2: "syncStep env dbs (a1, b1, w1) wk = (Suc a1, b1, w2)"
    by (simp add: syncStep_def run w2_def)
  obtain a3 b3 w3 where f3: "foldl (syncStep env dbs) (Suc a1, b1, w2) post = (a3, b3, w3)"
    by (cases "foldl (syncStep env dbs) (Suc a1, b1, w2) post") auto
  have fin: "foldl (syncStep env dbs) (0, 0, w) U = (a3, b3, w3)"
    by (simp add: split f1 f2 f3)
  obtain wz where "foldl (syncStep env dbs) (0, 0, w) U = (0 + length U, 0, wz)"
    using syncSteps_reliable[OF rel, of dbs 0 0 w U] by blast
  with fin have cnt: "a3 = length U" "b3 = 0" by simp_all
  define r where "r = \<lparr>synced = a3, errors = b3, total = length U\<rparr>"
  have 1: "syncToNotion env dbs w = (Inr r, w3)"
    by (simp add: syncToNotion_def Let_def U_def[symmetric] fin r_def)
  have 2: "total r = length U \<and> synced r = total r \<and> errors r = 0"
    by (simp add: r_def cnt)
  have 3: "sent (worldBefore env dbs U w i) = sent w @ before"
    unfolding wb by (rule before)
  have "worldBefore env dbs U w (Suc i) = w2"
    unfolding worldBefore_Suc[OF i(1)] pre_def[symmetric] i(2) f1 f2 by simp
  then have 4: "sent (worldBefore env dbs U w (Suc i)) = sent w @ before @ [q, second] @ rest"
    by (simp add: w2_def before)
  have l1: "length (sent w1) = length (sent w @ before)" by (simp add: before)
  have 5: "second = CreatePage (workoutsDbId dbs) (WorkoutProps wk)
         \<and> (\<exists>rs. notionApi env (Suc (length (sent w @ before))) second = Ok rs pid)
       \<or> second = UpdatePage pid (WorkoutProps wk)
         \<and> (\<exists>ps j. notionApi env (length (sent w @ before)) q = Ok (pid # ps) j)"
    using sec unfolding l1 .
  have 6: "length rest =
          length (getWorkoutExercises (w_id wk) (db w))
          + sum_list (map (\<lambda>ex. length (getExerciseSets (e_id ex) (db w)))
                       (getWorkoutExercises (w_id wk) (db w)))"
    using len by (simp add: getWorkoutExercises_def getExerciseSets_def ch1)
  obtain after where "sent w3 = sent w2 @ after"
    using syncSteps_children[OF f3] by blast
  then have 7: "\<exists>after. sent w3 = sent w @ before @ [q, second] @ rest @ after"
    by (simp add: w2_def before)
  have "filter (\<lambda>r. w_id r = w_id wk) (workouts (db w3))
      = filter (\<lambda>r. w_id r = w_id wk) (workouts (db w2))"
    by (rule syncSteps_frame(2)[OF f3 npost])
  also have "\<dots> = filter (\<lambda>r. w_id r = w_id wk)
        (workouts (markWorkoutSynced (w_id wk) pid (db w1)))"
    by (simp add: w2_def)
  also have "\<dots> = map (\<lambda>r. r\<lparr>syncedToNotion := True, notionPageId := Some pid\<rparr>)
         (filter (\<lambda>r. w_id r = w_id wk) (workouts (db w1)))"
    by (rule markWorkoutSynced_filter)
  also have "\<dots> = [wk\<lparr>syncedToNotion := True, notionPageId := Some pid\<rparr>]"
    unfolding row1 one by simp
  finally have 8: "filter (\<lambda>row. w_id row = w_id wk) (workouts (db w3))
         = [wk\<lparr>syncedToNotion := True, notionPageId := Some pid\<rparr>]" .
  show ?thesis
    unfolding U_def[symmetric] q_def[symmetric]
    using 1 2 i 3 4 5 kids 6 7 8 by blast
qed

lemma deletedWorld_unsynced:
  "getUnsyncedWorkouts (db deletedWorld) = [deletedRow]"
  by (simp add: deletedWorld_def getUnsyncedWorkouts_def deletedStore_workouts deletedRow_def)

theorem deleted_unmirrored_pushed_witness:
  "reliable emptyMirrorEnv \<and> distinct (map w_id (workouts (db deletedWorld)))
   \<and> deletedRow \<in> set (workouts (db deletedWorld))
   \<and> isDeleted deletedRow \<and> \<not> truthyStr (notionPageId deletedRow)
   \<and> \<not> syncedToNotion deletedRow
   \<and> (\<exists>r w' pid. syncToNotion emptyMirrorEnv specDbs deletedWorld = (Inr r, w')
        \<and> total r = 1 \<and> synced r = 1 \<and> errors r = 0
        \<and> filter (\<lambda>row. w_id row = w_id deletedRow) (workouts (db w'))
             = [deletedRow\<lparr>syncedToNotion := True, notionPageId := Some pid\<rparr>])"
proof -
  have h1: "reliable emptyMirrorEnv"
    by (simp add: reliable_def emptyMirrorEnv_def)
  have h2: "distinct (map w_id (workouts (db deletedWorld)))"
    by (simp add: deletedWorld_def deletedStore_workouts)
  have h3: "deletedRow \<in> set (workouts (db deletedWorld))"
    by (simp add: deletedWorld_def deletedStore_workouts deletedRow_def)
  have h4: "isDeleted deletedRow" by (simp add: deletedRow_def)
  have h5: "\<not> truthyStr (notionPageId deletedRow)"
    by (simp add: deletedRow_def newWorkout_def split: prod.splits)
  have h6: "\<not> syncedToNotion deletedRow" by (simp add: deletedRow_def)
  have l: "length (getUnsyncedWorkouts (db deletedWorld)) = 1"
    by (simp add: deletedWorld_unsynced)
  show ?thesis
    using h1 h2 h3 h4 h5 h6 deleted_unmirrored_pushed [OF h1 h2 h3 h4 h5 h6, of specDbs]
    unfolding l by metis
qed

section \<open>Claim C5: create or adopt\<close>

lemma pushFolder_sent:
  assumes "truthyStr (NOTION_TOKEN env)"
  shows "sent (snd (pushFolder env rdbs folder v))
       = sent v @ [CreatePage (programsDbId rdbs)
                     (FolderProps folder (length (getRoutinesByFolder (f_id folder) (db v))))]"
  using assms
  by (simp add: pushFolder_def Let_def notionRequest_def split: reply.splits)

lemma pushRoutine_sent:
  assumes "truthyStr (NOTION_TOKEN env)"
  shows "sent (snd (pushRoutine env rdbs (routine, folderPageId, exs) v))
       = sent v @ [CreatePage (routinesDbId rdbs)
                     (RoutineProps routine folderPageId (length exs)
                        (foldl (\<lambda>n ex. n + targetSets ex) 0 exs))]"
  using assms
  by (simp add: pushRoutine_def notionRequest_def split: reply.splits)

lemma pushRoutineExercise_sent:
  assumes "truthyStr (NOTION_TOKEN env)"
  shows "sent (snd (pushRoutineExercise env rdbs (exercise, routinePageId) v))
       = sent v @ [CreatePage (routineExercisesDbId rdbs)
                     (RoutineExerciseProps exercise routinePageId)]"
  using assms
  by (simp add: pushRoutineExercise_def notionRequest_def split: reply.splits)

lemma worldBefore_step:
  assumes "i < length U" and "syncWorkout env dbs (U ! i) (worldBefore env dbs U w i) = (res, w')"
  shows "worldBefore env dbs U w (Suc i) = w'"
proof -
  obtain a b w1 where f: "foldl (syncStep env dbs) (0, 0, w) (take i U) = (a, b, w1)"
    by (cases "foldl (syncStep env dbs) (0, 0, w) (take i U)") auto
  have wb: "worldBefore env dbs U w i = w1" by (simp add: worldBefore_def f)
  have "snd (snd (syncStep env dbs (a, b, w1) (U ! i))) = w'"
    using assms(2) unfolding wb by (cases res) (simp_all add: syncStep_def)
  then show ?thesis
    unfolding worldBefore_Suc[OF assms(1)] f .
qed

text \<open>
  C5 (as the code has it). Create-or-adopt is the discipline of the workouts and of no
  other record kind. In a pass of \<open>syncToNotion\<close> with a configured token, an unsynced
  workout without a stored page id is searched at its turn by natural key in the workouts
  database. When the search answers with pages, the first of them is updated, no
  workout page is created, and when the push succeeds that page's id is the one stored;
  a page is created only when the search finds none. The processors of
  \<open>syncRoutinesToNotion\<close> for routine folders, routines and routine exercises send one
  request each, the creation of a page, and never a search, whatever the mirror holds.
\<close>

theorem create_or_adopt:
  assumes tok: "truthyStr (NOTION_TOKEN env)"
    and i: "i < length (getUnsyncedWorkouts (db w))"
    and nop: "\<not> truthyStr (notionPageId (getUnsyncedWorkouts (db w) ! i))"
    and q: "notionApi env (length (sent (worldBefore env dbs (getUnsyncedWorkouts (db w)) w i)))
              (QueryDatabase (workoutsDbId dbs) (hevyId (getUnsyncedWorkouts (db w) ! i)))
            = Ok results page"
  shows "(let U = getUnsyncedWorkouts (db w);
              wk = U ! i;
              before = worldBefore env dbs U w i;
              after = worldBefore env dbs U w (Suc i);
              found = (case results of [] \<Rightarrow> notionPageId wk | p # others \<Rightarrow> Some p)
          in (\<exists>rest. sent after = sent before @
                  [QueryDatabase (workoutsDbId dbs) (hevyId wk),
                   if truthyStr found then UpdatePage (the found) (WorkoutProps wk)
                   else CreatePage (workoutsDbId dbs) (WorkoutProps wk)] @ rest
                \<and> list_all isChildCreate rest)
           \<and> (truthyStr found \<and> fst (syncWorkout env dbs wk before) = Inr ()
                 \<longrightarrow> db after = markWorkoutSynced (w_id wk) (the found) (db before)))
       \<and> sent (snd (pushFolder env rdbs folder v))
           = sent v @ [CreatePage (programsDbId rdbs)
                         (FolderProps folder (length (getRoutinesByFolder (f_id folder) (db v))))]
       \<and> sent (snd (pushRoutine env rdbs (routine, folderPageId, exs) v))
           = sent v @ [CreatePage (routinesDbId rdbs)
                         (RoutineProps routine folderPageId (length exs)
                            (foldl (\<lambda>n ex. n + targetSets ex) 0 exs))]
       \<and> sent (snd (pushRoutineExercise env rdbs (exercise, routinePageId) v))
           = sent v @ [CreatePage (routineExercisesDbId rdbs)
                         (RoutineExerciseProps exercise routinePageId)]"
proof -
  define U where "U = getUnsyncedWorkouts (db w)"
  define wk where "wk = U ! i"
  define before where "before = worldBefore env dbs U w i"
  define found where "found = (case results of [] \<Rightarrow> notionPageId wk | p # others \<Rightarrow> Some p)"
  obtain res w' where run: "syncWorkout env dbs wk before = (res, w')"
    by (cases "syncWorkout env dbs wk before")
  have after: "worldBefore env dbs U w (Suc i) = w'"
    using i run unfolding U_def[symmetric] wk_def before_def by (rule worldBefore_step)
  have nop': "\<not> truthyStr (notionPageId wk)" using nop by (simp add: wk_def U_def)
  have q': "notionApi env (length (sent before)) (QueryDatabase (workoutsDbId dbs) (hevyId wk))
      = Ok results page"
    using q by (simp add: wk_def U_def before_def)
  note s = syncWorkout_searched[OF tok nop' q' found_def run]
  have 1: "\<exists>rest. sent w' = sent before @
                  [QueryDatabase (workoutsDbId dbs) (hevyId wk),
                   if truthyStr found then UpdatePage (the found) (WorkoutProps wk)
                   else CreatePage (workoutsDbId dbs) (WorkoutProps wk)] @ rest
                \<and> list_all isChildCreate rest"
    by (rule s(1))
  have 2: "truthyStr found \<and> fst (syncWorkout env dbs wk before) = Inr ()
                 \<longrightarrow> db w' = markWorkoutSynced (w_id wk) (the found) (db before)"
    using s(2) run by simp
  have W: "(let U = getUnsyncedWorkouts (db w);
              wk = U ! i;
              before = worldBefore env dbs U w i;
              after = worldBefore env dbs U w (Suc i);
              found = (case results of [] \<Rightarrow> notionPageId wk | p # others \<Rightarrow> Some p)
          in (\<exists>rest. sent after = sent before @
                  [QueryDatabase (workoutsDbId dbs) (hevyId wk),
                   if truthyStr found then UpdatePage (the found) (WorkoutProps wk)
                   else CreatePage (workoutsDbId dbs) (WorkoutProps wk)] @ rest
                \<and> list_all isChildCreate rest)
           \<and> (truthyStr found \<and> fst (syncWorkout env dbs wk before) = Inr ()
                 \<longrightarrow> db after = markWorkoutSynced (w_id wk) (the found) (db before)))"
    unfolding Let_def U_def[symmetric] wk_def[symmetric] before_def[symmetric] found_def[symmetric]
      after
    using 1 2 by (rule conjI)
  show ?thesis
    using W pushFolder_sent[OF tok] pushRoutine_sent[OF tok] pushRoutineExercise_sent[OF tok]
    by (intro conjI)
qed

lemma folderStore_folders: "routineFolders folderStore = [specFolderRow]"
  by (simp add: folderStore_def upsertRoutineFolder_def emptyStore_def first_def Let_def
      specFolder_def specFolderRow_def)

theorem create_or_adopt_witness:
  "truthyStr (NOTION_TOKEN adoptingEnv)
   \<and> 0 < length (getUnsyncedWorkouts (db specWorld))
   \<and> \<not> truthyStr (notionPageId (getUnsyncedWorkouts (db specWorld) ! 0))
   \<and> notionApi adoptingEnv
        (length (sent (worldBefore adoptingEnv specDbs (getUnsyncedWorkouts (db specWorld)) specWorld 0)))
        (QueryDatabase (workoutsDbId specDbs) (hevyId (getUnsyncedWorkouts (db specWorld) ! 0)))
      = Ok [''page-old''] ''page-new''
   \<and> (\<exists>rest. sent (worldBefore adoptingEnv specDbs (getUnsyncedWorkouts (db specWorld)) specWorld (Suc 0))
         = [QueryDatabase ''db-workouts'' ''b459cba5'',
            UpdatePage ''page-old'' (WorkoutProps (newWorkout (\<lambda>t. 0) specWorkout 0))] @ rest
       \<and> list_all isChildCreate rest)"
proof -
  have h1: "truthyStr (NOTION_TOKEN adoptingEnv)" by (simp add: adoptingEnv_def)
  have h2: "0 < length (getUnsyncedWorkouts (db specWorld))" by (simp add: specWorld_unsynced)
  have h3: "\<not> truthyStr (notionPageId (getUnsyncedWorkouts (db specWorld) ! 0))"
    by (simp add: specWorld_unsynced newWorkout_def split: prod.splits)
  have h4: "notionApi adoptingEnv
        (length (sent (worldBefore adoptingEnv specDbs (getUnsyncedWorkouts (db specWorld)) specWorld 0)))
        (QueryDatabase (workoutsDbId specDbs) (hevyId (getUnsyncedWorkouts (db specWorld) ! 0)))
      = Ok [''page-old''] ''page-new''"
    by (simp add: adoptingEnv_def)
  have b: "worldBefore adoptingEnv specDbs [newWorkout (\<lambda>t. 0) specWorkout 0] specWorld 0 = specWorld"
    by (simp add: worldBefore_def)
  have e: "sent specWorld = []" by (simp add: specWorld_def)
  have k: "workoutsDbId specDbs = ''db-workouts''" by (simp add: specDbs_def)
  have hid: "hw_id specWorkout = ''b459cba5''"
    by (simp add: specWorkout_def)
  note t = create_or_adopt [OF h1 h2 h3 h4, THEN conjunct1]
  have "\<exists>rest. sent (worldBefore adoptingEnv specDbs (getUnsyncedWorkouts (db specWorld)) specWorld (Suc 0))
         = [QueryDatabase ''db-workouts'' ''b459cba5'',
            UpdatePage ''page-old'' (WorkoutProps (newWorkout (\<lambda>t. 0) specWorkout 0))] @ rest
       \<and> list_all isChildCreate rest"
    using t unfolding Let_def specWorld_unsynced by (simp add: b e k hid)
  then show ?thesis
    using h1 h2 h3 h4 by (intro conjI)
qed

text \<open>
  A routine folder that is unsynced and has no stored page id, and a mirror that answers
  every request, a search included, with the existing page \<open>page-old\<close>: the push sends
  no search, it creates the page \<open>page-new\<close> and stores that id.
\<close>

theorem create_or_adopt_counterexample:
  "getUnsyncedRoutineFolders folderStore = [specFolderRow]
   \<and> f_notionPageId specFolderRow = None
   \<and> pushFolder adoptingEnv specRoutineDbs specFolderRow \<lparr>db = folderStore, sent = []\<rparr>
       = (Inr (specFolderRow, ''page-new'', []),
          \<lparr>db = markRoutineFolderSynced 0 ''page-new'' folderStore,
           sent = [CreatePage ''db-programs'' (FolderProps specFolderRow 0)]\<rparr>)"
  by (simp add: getUnsyncedRoutineFolders_def folderStore_folders specFolderRow_def
      pushFolder_def Let_def notionRequest_def adoptingEnv_def specRoutineDbs_def
      getRoutinesByFolder_def folderStore_def upsertRoutineFolder_def emptyStore_def first_def
      specFolder_def)

end
